theory Spec2Isabelle
  imports Complex_Main "HOL-Library.Word"
begin

section \<open>Strings\<close>

text \<open>
  A JavaScript string is modelled as a \<^typ>\<open>string\<close>: a list of code units, each
  below 256. \<open>String.prototype.trim\<close> removes white space and line terminators at both
  ends; below 256 these are the six ASCII controls and blanks and the no-break space.
\<close>

definition is_space :: "char \<Rightarrow> bool" where
  "is_space c = (of_char c \<in> {9, 10, 11, 12, 13, 32, 160 :: nat})"

definition trim :: "string \<Rightarrow> string" where
  "trim s = rev (dropWhile is_space (rev (dropWhile is_space s)))"

section \<open>Plain objects\<close>

text \<open>
  A plain object (an object literal, or what \<open>JSON.parse\<close> returns) has its own
  properties and inherits those of \<open>Object.prototype\<close>. Reading \<open>obj[k]\<close> and the
  operator \<open>k in obj\<close> look at the own properties first and then at the inherited ones;
  \<open>Object.keys\<close> lists the own ones only. These are the names \<open>Object.prototype\<close>
  defines. Behind each is a function, behind \<open>__proto__\<close> the prototype object itself:
  a value that is truthy, is not a string and has no property \<open>safeParse\<close>.
\<close>

definition Object_prototype :: "string list" where
  "Object_prototype =
     [''constructor'', ''__defineGetter__'', ''__defineSetter__'', ''hasOwnProperty'',
      ''__lookupGetter__'', ''__lookupSetter__'', ''isPrototypeOf'', ''propertyIsEnumerable'',
      ''toString'', ''valueOf'', ''__proto__'', ''toLocaleString'']"

text \<open>\<open>k in obj\<close>, for an object with the own properties \<open>kvs\<close>.\<close>

definition has_property :: "(string \<times> 'a) list \<Rightarrow> string \<Rightarrow> bool" where
  "has_property kvs k = (k \<in> fst ` set kvs \<or> k \<in> set Object_prototype)"

section \<open>Localized text and its resolution (src/lib/i18n.ts)\<close>

text \<open>
  \<open>LocalizedText\<close> is the union of a plain string and a record from language code to
  string. A record is the list of its own properties in \<open>Object.keys\<close> order.
\<close>

datatype LocalizedText = LText string | LMap "(string \<times> string) list"

text \<open>The three module-level variables of i18n.ts, as one value.\<close>

record LocaleContext =
  currentLanguage :: string
  defaultLanguage :: string
  availableLanguages :: "string list"

text \<open>\<open>if (x)\<close> for a string that may be \<open>undefined\<close>: \<open>undefined\<close> and the empty string are falsy.\<close>

fun truthy :: "string option \<Rightarrow> bool" where
  "truthy None = False"
| "truthy (Some v) = (v \<noteq> [])"

text \<open>
  What reading \<open>value[k]\<close> on a record gives: the string of its own property \<open>k\<close>,
  else the member of \<open>Object.prototype\<close> of that name, else \<open>undefined\<close> (\<open>None\<close>).
  \<open>t\<close> returns what it has read, so its result is of the same kind, whatever its
  declared return type says.
\<close>

datatype property_value = Str string | Inherited string


fun truthy_value :: "property_value option \<Rightarrow> bool" where
  "truthy_value None = False"
| "truthy_value (Some (Str v)) = (v \<noteq> [])"
| "truthy_value (Some (Inherited k)) = True"



text \<open>
  What \<open>LocalizedTextSchema\<close> accepts: a string that is not empty once trimmed, or a
  record with at least one entry whose keys are not empty and whose values are not empty
  once trimmed.
\<close>

fun valid_LocalizedText :: "LocalizedText \<Rightarrow> bool" where
  "valid_LocalizedText (LText s) = (trim s \<noteq> [])"
| "valid_LocalizedText (LMap m) =
     (m \<noteq> [] \<and> list_all (\<lambda>(k, v). k \<noteq> [] \<and> trim v \<noteq> []) m)"



section \<open>The configuration tree and the asset reference walker (pipeline/download-assets.js)\<close>

text \<open>
  The value \<open>JSON.parse\<close> returns. An object is the list of its own properties in
  \<open>Object.keys\<close> order. The walker and the validator read a tree through
  \<open>Object.keys\<close> and through fixed names that \<open>Object.prototype\<close> does not define,
  so reading a property of a tree is a lookup among its own properties. A number is a
  real: the rounding of doubles plays no part below.
\<close>

datatype json =
    JNull
  | JBool bool
  | JNum real
  | JStr string
  | JArr "json list"
  | JObj "(string \<times> json) list"

text \<open>
  An object holds each key once. \<open>JSON.parse\<close> guarantees it; the walker's setters
  (\<open>parent[k] = newValue\<close>) rely on it.
\<close>

fun wf_json :: "json \<Rightarrow> bool"
  and wf_array :: "json list \<Rightarrow> bool"
  and wf_object :: "(string \<times> json) list \<Rightarrow> bool"
where
  "wf_json (JArr xs) = wf_array xs"
| "wf_json (JObj kvs) = wf_object kvs"
| "wf_json JNull = True"
| "wf_json (JBool b) = True"
| "wf_json (JNum n) = True"
| "wf_json (JStr s) = True"
| "wf_array [] = True"
| "wf_array (x # xs) = (wf_json x \<and> wf_array xs)"
| "wf_object [] = True"
| "wf_object ((k, x) # rest) = (k \<notin> fst ` set rest \<and> wf_json x \<and> wf_object rest)"

definition startsWith :: "string \<Rightarrow> string \<Rightarrow> bool" where
  "startsWith s p = (take (length p) s = p)"

text \<open>\<open>isRemoteUrl\<close>: a string that starts with \<open>http://\<close> or \<open>https://\<close>.\<close>

fun isRemoteUrl :: "json \<Rightarrow> bool" where
  "isRemoteUrl (JStr s) = (startsWith s ''http://'' \<or> startsWith s ''https://'')"
| "isRemoteUrl _ = False"

text \<open>\<open>typeof val === 'object' && val !== null\<close>: an array or an object.\<close>

fun is_object :: "json \<Rightarrow> bool" where
  "is_object (JArr _) = True"
| "is_object (JObj _) = True"
| "is_object _ = False"

fun str_of :: "json \<Rightarrow> string" where
  "str_of (JStr s) = s"
| "str_of _ = []"

text \<open>
  A setter closure \<open>(newValue) => { arr[index] = newValue; }\<close> or
  \<open>(newValue) => { parent[k] = newValue; }\<close> captures a container and an index or key.
  The tree has no sharing, so the container is identified by the path that leads to it
  from the root: a slot is that path followed by the index or key.
\<close>

datatype key = Index nat | Prop string

type_synonym slot = "key list"

definition under :: "key \<Rightarrow> (string \<times> slot) list \<Rightarrow> (string \<times> slot) list" where
  "under k es = map (\<lambda>(url, p). (url, k # p)) es"

text \<open>
  \<open>collectRemoteUrls\<close>. The accumulator \<open>results\<close> receives the entries in the order of
  the traversal; \<open>collect_array\<close> is the \<open>for (let i = 0; ...)\<close> loop from index \<open>i\<close>
  on, \<open>collect_object\<close> the loop over \<open>Object.keys(obj)\<close>.
\<close>

fun collectRemoteUrls :: "json \<Rightarrow> (string \<times> slot) list"
  and collect_array :: "nat \<Rightarrow> json list \<Rightarrow> (string \<times> slot) list"
  and collect_object :: "(string \<times> json) list \<Rightarrow> (string \<times> slot) list"
where
  "collectRemoteUrls (JArr xs) = collect_array 0 xs"
| "collectRemoteUrls (JObj kvs) = collect_object kvs"
| "collectRemoteUrls JNull = []"
| "collectRemoteUrls (JBool b) = []"
| "collectRemoteUrls (JNum n) = []"
| "collectRemoteUrls (JStr s) = []"
| "collect_array i [] = []"
| "collect_array i (val # rest) =
     (if isRemoteUrl val then [(str_of val, [Index i])]
      else if is_object val then under (Index i) (collectRemoteUrls val)
      else [])
     @ collect_array (Suc i) rest"
| "collect_object [] = []"
| "collect_object ((k, val) # rest) =
     (if isRemoteUrl val then [(str_of val, [Prop k])]
      else if is_object val then under (Prop k) (collectRemoteUrls val)
      else [])
     @ collect_object rest"

text \<open>Calling a setter: the assignment \<open>arr[index] = newValue\<close> or \<open>parent[k] = newValue\<close>.\<close>

fun setAt :: "slot \<Rightarrow> json \<Rightarrow> json \<Rightarrow> json" where
  "setAt [] newValue tree = newValue"
| "setAt (Index i # p) newValue (JArr xs) =
     (if i < length xs then JArr (xs[i := setAt p newValue (xs ! i)]) else JArr xs)"
| "setAt (Prop k # p) newValue (JObj kvs) =
     JObj (map (\<lambda>(k', x). if k' = k then (k', setAt p newValue x) else (k', x)) kvs)"
| "setAt (_ # p) newValue tree = tree"

text \<open>Reading a slot: \<open>arr[index]\<close> or \<open>parent[k]\<close>, \<open>None\<close> where there is none.\<close>

fun getAt :: "slot \<Rightarrow> json \<Rightarrow> json option" where
  "getAt [] tree = Some tree"
| "getAt (Index i # p) (JArr xs) = (if i < length xs then getAt p (xs ! i) else None)"
| "getAt (Prop k # p) (JObj kvs) = (case map_of kvs k of Some x \<Rightarrow> getAt p x | None \<Rightarrow> None)"
| "getAt (_ # p) tree = None"

text \<open>\<open>for (const set of setters) set(v)\<close>.\<close>

definition set_all :: "slot list \<Rightarrow> string \<Rightarrow> json \<Rightarrow> json" where
  "set_all setters v tree = fold (\<lambda>p. setAt p (JStr v)) setters tree"

text \<open>The setters collected for one URL, in the order of collection.\<close>

definition slots_of :: "string \<Rightarrow> (string \<times> slot) list \<Rightarrow> slot list" where
  "slots_of u es = map snd (filter (\<lambda>e. fst e = u) es)"

text \<open>
  The tree in which every remote URL that \<open>r\<close> resolves is replaced, in every slot
  that holds it, by the path \<open>r\<close> gives; all else is kept. The proofs below show that this
  is what a run of the downloader leaves.
\<close>

fun rewrite :: "(string \<Rightarrow> string option) \<Rightarrow> json \<Rightarrow> json"
  and rewrite_array :: "(string \<Rightarrow> string option) \<Rightarrow> json list \<Rightarrow> json list"
  and rewrite_object ::
    "(string \<Rightarrow> string option) \<Rightarrow> (string \<times> json) list \<Rightarrow> (string \<times> json) list"
where
  "rewrite r (JArr xs) = JArr (rewrite_array r xs)"
| "rewrite r (JObj kvs) = JObj (rewrite_object r kvs)"
| "rewrite r JNull = JNull"
| "rewrite r (JBool b) = JBool b"
| "rewrite r (JNum n) = JNum n"
| "rewrite r (JStr s) = JStr s"
| "rewrite_array r [] = []"
| "rewrite_array r (x # xs) =
     (if isRemoteUrl x then (case r (str_of x) of Some v \<Rightarrow> JStr v | None \<Rightarrow> x)
      else rewrite r x) # rewrite_array r xs"
| "rewrite_object r [] = []"
| "rewrite_object r ((k, x) # rest) =
     (k, if isRemoteUrl x then (case r (str_of x) of Some v \<Rightarrow> JStr v | None \<Rightarrow> x)
         else rewrite r x) # rewrite_object r rest"

definition resolved_value :: "(string \<Rightarrow> string option) \<Rightarrow> string \<Rightarrow> string" where
  "resolved_value r u = (case r u of Some v \<Rightarrow> v | None \<Rightarrow> u)"

text \<open>
  \<open>deduplicateByUrl\<close>. The \<open>Map\<close> from URL to setters is an association list in
  insertion order: \<open>map.has\<close>, \<open>map.set(url, [])\<close> and \<open>map.get(url).push(set)\<close>.
\<close>

type_synonym url_map = "(string \<times> slot list) list"

definition map_has :: "url_map \<Rightarrow> string \<Rightarrow> bool" where
  "map_has m url = (url \<in> fst ` set m)"

definition map_push :: "url_map \<Rightarrow> string \<Rightarrow> slot \<Rightarrow> url_map" where
  "map_push m url setter =
     map (\<lambda>(u, setters). if u = url then (u, setters @ [setter]) else (u, setters)) m"

definition dedup_step :: "string \<times> slot \<Rightarrow> url_map \<Rightarrow> url_map" where
  "dedup_step =
     (\<lambda>(url, setter) m. map_push (if \<not> map_has m url then m @ [(url, [])] else m) url setter)"

definition deduplicateByUrl :: "(string \<times> slot) list \<Rightarrow> url_map" where
  "deduplicateByUrl entries = fold dedup_step entries []"

section \<open>File names (pipeline/download-assets.js)\<close>

subsection \<open>Numbers as text\<close>

text \<open>\<open>Number.prototype.toString(radix)\<close> on a natural number, for a radix from 2 to 36.\<close>

definition digit_char :: "nat \<Rightarrow> char" where
  "digit_char d = (if d < 10 then char_of (48 + d) else char_of (87 + d))"

function toString_radix :: "nat \<Rightarrow> nat \<Rightarrow> string" where
  "toString_radix b n =
     (if n < b \<or> b < 2 then [digit_char n]
      else toString_radix b (n div b) @ [digit_char (n mod b)])"
  by pat_completeness auto
termination
  by (relation "measure snd") auto

declare toString_radix.simps [simp del]

text \<open>The text of a number inside a template literal.\<close>

definition dec :: "nat \<Rightarrow> string" where
  "dec n = toString_radix 10 n"

definition from_dec :: "string \<Rightarrow> nat" where
  "from_dec s = foldl (\<lambda>a c. 10 * a + (of_char c - 48)) 0 s"

subsection \<open>The platform\<close>

text \<open>
  What a request ends in. A response carries its status code, its \<open>Location\<close> header
  and what becomes of the body once it is piped into the file: it arrives whole
  (\<open>finish\<close>), the write stream fails after some bytes (\<open>error\<close> on the file stream), or
  the transfer stops and the socket stays idle until the 30 second timer fires. Time is
  not modelled: the timer is the event itself.
\<close>

datatype transfer =
    Finished string
  | WriteStreamError string string
  | Stalled string

datatype reply =
    RequestError string
  | NoResponse
  | Response nat "string option" transfer

text \<open>
  The functions of Node and of the network that the downloader calls:
  \<open>url_pathname u\<close> is \<open>new URL(u).pathname\<close>, \<open>None\<close> when the constructor throws;
  \<open>url_protocol u\<close> is \<open>new URL(u).protocol\<close>, read only where the constructor returns;
  \<open>decodeURIComponent\<close> is \<open>None\<close> when it throws;
  \<open>url_href location base\<close> is \<open>new URL(location, base).href\<close>, \<open>None\<close> when the
  constructor throws;
  \<open>asset_ref name\<close> is \<open>path.join(relativeAssetsDir, name).replace(/\\/g, '/')\<close>;
  \<open>server\<close> is what a GET of a URL ends in;
  \<open>config_path\<close> is \<open>path.resolve(configPath)\<close>;
  \<open>mkdir_error\<close> is the message \<open>fs.mkdirSync\<close> throws when the destination directory
  cannot be made, \<open>None\<close> when it returns;
  \<open>write_error\<close> is the message \<open>fs.writeFileSync\<close> throws when the configuration file
  cannot be written.
\<close>

record platform =
  url_pathname :: "string \<Rightarrow> string option"
  url_protocol :: "string \<Rightarrow> string"
  decodeURIComponent :: "string \<Rightarrow> string option"
  url_href :: "string \<Rightarrow> string \<Rightarrow> string option"
  asset_ref :: "string \<Rightarrow> string"
  server :: "string \<Rightarrow> reply"
  config_path :: string
  mkdir_error :: "string option"
  write_error :: "string option"

subsection \<open>localFilenameFromUrl\<close>

text \<open>
  \<open>simpleHash\<close>: \<open>hash = ((hash << 5) - hash) + ch; hash |= 0\<close> is arithmetic modulo
  \<open>2^32\<close> read as a signed number.
\<close>

definition simpleHash :: "string \<Rightarrow> string" where
  "simpleHash str =
     toString_radix 36
       (nat \<bar>sint (fold (\<lambda>ch hash. (push_bit 5 hash - hash) + of_char ch) str (0 :: 32 word))\<bar>)"

text \<open>\<open>String.prototype.split\<close> on a one-character separator.\<close>

fun split :: "char \<Rightarrow> string \<Rightarrow> string list" where
  "split sep [] = [[]]"
| "split sep (c # cs) =
     (if c = sep then [] # split sep cs
      else (case split sep cs of s # ss \<Rightarrow> (c # s) # ss | [] \<Rightarrow> [[c]]))"

text \<open>The characters the pattern \<open>[^a-zA-Z0-9._-]\<close> leaves alone.\<close>

definition safe_char :: "char \<Rightarrow> bool" where
  "safe_char c =
     (let n = (of_char c :: nat)
      in (97 \<le> n \<and> n \<le> 122) \<or> (65 \<le> n \<and> n \<le> 90) \<or> (48 \<le> n \<and> n \<le> 57)
         \<or> c = CHR ''.'' \<or> c = CHR ''_'' \<or> c = CHR ''-'')"

definition localFilenameFromUrl :: "'a platform_scheme \<Rightarrow> string \<Rightarrow> string" where
  "localFilenameFromUrl P urlString =
     (case url_pathname P urlString of
        None \<Rightarrow> ''asset_'' @ simpleHash urlString
      | Some pathname \<Rightarrow>
          (let segments = filter (\<lambda>s. s \<noteq> []) (split CHR ''/'' pathname);
               filename = (if segments \<noteq> [] then last segments else []);
               filename = (case decodeURIComponent P filename of Some d \<Rightarrow> d | None \<Rightarrow> filename);
               filename = map (\<lambda>c. if safe_char c then c else CHR ''_'') filename;
               filename = dropWhile (\<lambda>c. c = CHR ''.'') filename
           in if filename = [] then ''asset_'' @ simpleHash urlString else filename))"

subsection \<open>The destination directory and uniqueFilename\<close>

text \<open>
  The destination directory is the list of its files, name and content. Every name the
  downloader asks about is a single path segment, so \<open>fs.existsSync(path.join(dir, name))\<close>
  is membership of the name. \<open>fs.mkdirSync(dir, {recursive: true})\<close>, when it returns,
  leaves the list as it is.
\<close>

type_synonym directory = "(string \<times> string) list"

definition existsSync :: "directory \<Rightarrow> string \<Rightarrow> bool" where
  "existsSync dir name = (name \<in> fst ` set dir)"

definition writeFile :: "directory \<Rightarrow> string \<Rightarrow> string \<Rightarrow> directory" where
  "writeFile dir name content = (name, content) # filter (\<lambda>f. fst f \<noteq> name) dir"

definition unlink :: "directory \<Rightarrow> string \<Rightarrow> directory" where
  "unlink dir name = filter (\<lambda>f. fst f \<noteq> name) dir"

text \<open>\<open>path.extname\<close> and \<open>path.basename(name, ext)\<close> of Node, on a single path segment.\<close>

definition last_dot :: "string \<Rightarrow> nat option" where
  "last_dot name =
     (if CHR ''.'' \<in> set name
      then Some (length name - 1 - length (takeWhile (\<lambda>c. c \<noteq> CHR ''.'') (rev name)))
      else None)"

definition extname :: "string \<Rightarrow> string" where
  "extname name =
     (case last_dot name of
        None \<Rightarrow> []
      | Some i \<Rightarrow> if i = 0 \<or> name = ''..'' then [] else drop i name)"

definition basename :: "string \<Rightarrow> string \<Rightarrow> string" where
  "basename name ext =
     (if ext \<noteq> [] \<and> length ext \<le> length name \<and> drop (length name - length ext) name = ext
      then take (length name - length ext) name else name)"

definition candidate :: "string \<Rightarrow> string \<Rightarrow> nat \<Rightarrow> string" where
  "candidate base ext counter = base @ ''_'' @ dec counter @ ext"

text \<open>
  The \<open>while (true)\<close> loop of \<open>uniqueFilename\<close>. It ends because the directory and the
  set of reserved names are finite and the candidates of different counters differ.
\<close>

function uniqueFilename_loop ::
  "directory \<Rightarrow> string list \<Rightarrow> string \<Rightarrow> string \<Rightarrow> nat \<Rightarrow> string" where
  "uniqueFilename_loop dir reserved base ext counter =
     (if \<not> existsSync dir (candidate base ext counter) \<and> candidate base ext counter \<notin> set reserved
      then candidate base ext counter
      else uniqueFilename_loop dir reserved base ext (counter + 1))"
  by pat_completeness auto
termination
proof (relation "measure (\<lambda>(dir, reserved, base, ext, counter).
    card {c. counter \<le> c \<and> (existsSync dir (candidate base ext c) \<or> candidate base ext c \<in> set reserved)})")
  show "wf (measure (\<lambda>(dir, reserved, base, ext, counter).
    card {c. counter \<le> c \<and> (existsSync dir (candidate base ext c) \<or> candidate base ext c \<in> set reserved)}))"
    by simp
next
  fix dir :: directory and reserved base ext counter
  let ?taken = "\<lambda>c. existsSync dir (candidate base ext c) \<or> candidate base ext c \<in> set reserved"
  assume "\<not> (\<not> existsSync dir (candidate base ext counter) \<and> candidate base ext counter \<notin> set reserved)"
  then have here: "?taken counter" by simp
  have digit: "(of_char (digit_char d) :: nat) - 48 = d" if "d < 10" for d
    using that by (simp add: digit_char_def)
  have undo: "from_dec (toString_radix 10 n) = n" for n
  proof (induction "10 :: nat" n rule: toString_radix.induct)
    case (1 n)
    show ?case
    proof (cases "n < 10")
      case True
      then show ?thesis
        by (subst toString_radix.simps) (simp add: from_dec_def digit)
    next
      case False
      with 1 have "from_dec (toString_radix 10 (n div 10)) = n div 10" by simp
      with False show ?thesis
        by (subst toString_radix.simps) (simp add: from_dec_def digit)
    qed
  qed
  have "inj dec"
    by (rule inj_on_inverseI [where g = from_dec]) (simp add: dec_def undo)
  then have "inj (candidate base ext)"
    by (auto simp: inj_def candidate_def)
  then have "finite (candidate base ext -` (fst ` set dir \<union> set reserved))"
    by (simp add: finite_vimageI)
  moreover have "{c. counter \<le> c \<and> ?taken c} \<subseteq> candidate base ext -` (fst ` set dir \<union> set reserved)"
    by (auto simp: existsSync_def)
  ultimately have fin: "finite {c. counter \<le> c \<and> ?taken c}"
    by (rule rev_finite_subset)
  have "counter \<in> {c. counter \<le> c \<and> ?taken c}" "counter \<notin> {c. counter + 1 \<le> c \<and> ?taken c}"
    using here by auto
  moreover have "{c. counter + 1 \<le> c \<and> ?taken c} \<subseteq> {c. counter \<le> c \<and> ?taken c}"
    by auto
  ultimately have "{c. counter + 1 \<le> c \<and> ?taken c} \<subset> {c. counter \<le> c \<and> ?taken c}"
    by blast
  then have "card {c. counter + 1 \<le> c \<and> ?taken c} < card {c. counter \<le> c \<and> ?taken c}"
    by (rule psubset_card_mono [OF fin])
  then show "((dir, reserved, base, ext, counter + 1), (dir, reserved, base, ext, counter))
      \<in> measure (\<lambda>(dir, reserved, base, ext, counter).
        card {c. counter \<le> c \<and> (existsSync dir (candidate base ext c) \<or> candidate base ext c \<in> set reserved)})"
    by simp
qed

declare uniqueFilename_loop.simps [simp del]

definition uniqueFilename :: "directory \<Rightarrow> string \<Rightarrow> string list \<Rightarrow> string" where
  "uniqueFilename dir filename reserved =
     (if \<not> existsSync dir filename \<and> filename \<notin> set reserved then filename
      else
        (let ext = extname filename;
             base = basename filename ext
         in uniqueFilename_loop dir reserved base ext 2))"

section \<open>downloadFile (pipeline/download-assets.js)\<close>

definition MAX_REDIRECTS :: int where
  "MAX_REDIRECTS = 5"

text \<open>
  What a call of \<open>downloadFile\<close> ends in: \<open>resolve()\<close>; \<open>reject\<close> with an error of the
  given message; or an exception thrown inside the response callback. Nothing catches
  that one (the \<open>try\<close> of the caller is around an \<open>await\<close> of the promise, and the promise
  is never settled): Node reports the exception and the process exits.
\<close>

datatype ending = Resolved | Rejected string | Uncaught string

text \<open>
  \<open>transport.get(url, ...)\<close> with \<open>transport = parsed.protocol === 'https:' ? https : http\<close>:
  \<open>http.get\<close> throws a \<open>TypeError\<close> for every protocol other than \<open>http:\<close>, before any
  request is made. \<open>refused_protocol\<close> is the message of that error, \<open>None\<close> when the
  call goes through.
\<close>

definition refused_protocol :: "'a platform_scheme \<Rightarrow> string \<Rightarrow> string option" where
  "refused_protocol P url =
     (if url_protocol P url = ''https:'' then None
      else if url_protocol P url = ''http:'' then None
      else Some (''Protocol \"'' @ url_protocol P url @ ''\" not supported. Expected \"http:\"''))"

text \<open>
  An exception that leaves a call of \<open>doRequest\<close> made from inside the response callback
  leaves the callback too.
\<close>

definition in_callback :: "(string + ending) \<times> directory \<Rightarrow> (string + ending) \<times> directory" where
  "in_callback r = (case fst r of Inl message \<Rightarrow> (Inr (Uncaught message), snd r) | Inr e \<Rightarrow> r)"

text \<open>
  \<open>doRequest\<close>. The result is \<open>Inl message\<close> when the call itself throws (in
  \<open>transport.get\<close>), else \<open>Inr\<close> what becomes of the promise; and the directory as the
  request leaves it. Only \<open>new URL(url)\<close> is inside a \<open>try\<close>; \<open>new URL(headers.location,
  url)\<close> and the recursive call are not. \<open>fs.createWriteStream(destPath)\<close> creates the
  file; \<open>fs.unlink\<close> removes it. The handler of the timer calls \<open>req.destroy()\<close> and
  \<open>reject\<close>, nothing else.
\<close>

function doRequest ::
  "'a platform_scheme \<Rightarrow> string \<Rightarrow> string \<Rightarrow> directory \<Rightarrow> string \<Rightarrow> int
    \<Rightarrow> (string + ending) \<times> directory" where
  "doRequest P urlString destPath dir url redirectsLeft =
     (if url_pathname P url = None then (Inr (Rejected (''Invalid URL: '' @ url)), dir)
      else
        (case refused_protocol P url of
           Some message \<Rightarrow> (Inl message, dir)
         | None \<Rightarrow>
        (case server P url of
           RequestError message \<Rightarrow> (Inr (Rejected message), dir)
         | NoResponse \<Rightarrow> (Inr (Rejected (''Timeout downloading '' @ urlString)), dir)
         | Response statusCode location body \<Rightarrow>
             if 300 \<le> statusCode \<and> statusCode < 400 \<and> truthy location then
               if redirectsLeft \<le> 0 then
                 (Inr (Rejected (''Too many redirects (>'' @ dec (nat MAX_REDIRECTS) @ '') for URL: ''
                    @ urlString)), dir)
               else
                 (case url_href P (the location) url of
                    None \<Rightarrow> (Inr (Uncaught ''Invalid URL''), dir)
                  | Some redirectUrl \<Rightarrow>
                      in_callback (doRequest P urlString destPath dir redirectUrl (redirectsLeft - 1)))
             else if statusCode < 200 \<or> 300 \<le> statusCode then
               (Inr (Rejected (''HTTP '' @ dec statusCode @ '' when downloading '' @ urlString)), dir)
             else
               (case body of
                  Finished content \<Rightarrow> (Inr Resolved, writeFile dir destPath content)
                | WriteStreamError partial message \<Rightarrow>
                    (Inr (Rejected message), unlink (writeFile dir destPath partial) destPath)
                | Stalled partial \<Rightarrow>
                    (Inr (Rejected (''Timeout downloading '' @ urlString)),
                     writeFile dir destPath partial)))))"
  by pat_completeness auto
termination
  by (relation "measure (\<lambda>(P, urlString, destPath, dir, url, redirectsLeft). nat redirectsLeft)") auto

declare doRequest.simps [simp del]

text \<open>
  \<open>downloadFile\<close>. The first call of \<open>doRequest\<close> is made inside the executor of the
  promise, and an exception that leaves the executor rejects the promise.
\<close>

definition downloadFile ::
  "'a platform_scheme \<Rightarrow> string \<Rightarrow> string \<Rightarrow> directory \<Rightarrow> ending \<times> directory" where
  "downloadFile P urlString destPath dir =
     (case doRequest P urlString destPath dir urlString MAX_REDIRECTS of
        (Inl message, dir') \<Rightarrow> (Rejected message, dir')
      | (Inr e, dir') \<Rightarrow> (e, dir'))"

text \<open>
  A chain of redirects: \<open>redirect_of P url\<close> is the URL that the request for \<open>url\<close> is
  redirected to (the request is made and answered by a 3xx status with a \<open>Location\<close>
  header, which resolves against \<open>url\<close>), and \<open>after_redirects P url n\<close> the URL reached
  after \<open>n\<close> such hops. \<open>serves P url content\<close>: the request for \<open>url\<close> is made and
  answered by a 2xx whose body arrives whole.
\<close>

definition redirect_of :: "'a platform_scheme \<Rightarrow> string \<Rightarrow> string option" where
  "redirect_of P url =
     (if url_pathname P url = None \<or> refused_protocol P url \<noteq> None then None
      else
        (case server P url of
           Response statusCode location body \<Rightarrow>
             if 300 \<le> statusCode \<and> statusCode < 400 \<and> truthy location
             then url_href P (the location) url else None
         | _ \<Rightarrow> None))"

fun after_redirects :: "'a platform_scheme \<Rightarrow> string \<Rightarrow> nat \<Rightarrow> string option" where
  "after_redirects P url 0 = Some url"
| "after_redirects P url (Suc n) =
     (case redirect_of P url of Some next_url \<Rightarrow> after_redirects P next_url n | None \<Rightarrow> None)"

definition serves :: "'a platform_scheme \<Rightarrow> string \<Rightarrow> string \<Rightarrow> bool" where
  "serves P url content =
     (url_pathname P url \<noteq> None \<and> refused_protocol P url = None \<and>
      (case server P url of
         Response statusCode location body \<Rightarrow>
           200 \<le> statusCode \<and> statusCode < 300 \<and> body = Finished content
       | _ \<Rightarrow> False))"

text \<open>
  A platform on which the redirect branch cannot throw: every \<open>Location\<close> resolves, and
  to a URL that \<open>transport.get\<close> accepts.
\<close>

definition redirects_resolve :: "'a platform_scheme \<Rightarrow> bool" where
  "redirects_resolve P =
     (\<forall>location url. \<exists>redirectUrl. url_href P location url = Some redirectUrl
        \<and> (url_pathname P redirectUrl \<noteq> None \<longrightarrow> refused_protocol P redirectUrl = None))"

section \<open>downloadAssets (pipeline/download-assets.js)\<close>

text \<open>The lines the downloader prints, one constructor for each \<open>console\<close> call.\<close>

datatype event =
    NothingToDo
  | Found nat
  | Unique nat
  | Skip string string
  | Downloading string
  | Saved string string
  | Error string
  | ConfigWritten
  | Done nat nat nat

text \<open>
  The variables the loop over \<open>urlMap\<close> changes: the parsed configuration, the
  destination directory, \<open>reservedFilenames\<close>, the three fields of \<open>stats\<close>
  (\<open>run_errors\<close> is \<open>stats.errors\<close>) and the console.
\<close>

record run =
  config :: json
  files :: directory
  reservedFilenames :: "string list"
  downloaded :: nat
  skipped :: nat
  run_errors :: "string list"
  console :: "event list"

text \<open>
  One turn of \<open>for (const [url, setters] of urlMap)\<close>: \<open>Inr\<close> the variables after
  the turn, or \<open>Inl message\<close> when the process ends in this turn, by an exception that
  nothing catches.
\<close>

definition resolve_url :: "'a platform_scheme \<Rightarrow> string \<times> slot list \<Rightarrow> run \<Rightarrow> string + run" where
  "resolve_url P entry s =
     (case entry of (url, setters) \<Rightarrow>
        let rawFilename = localFilenameFromUrl P url;
            filename = uniqueFilename (files s) rawFilename (reservedFilenames s);
            s = s\<lparr>reservedFilenames := reservedFilenames s @ [filename]\<rparr>;
            localRef = asset_ref P filename
        in if existsSync (files s) rawFilename then
             let existingLocalRef = asset_ref P rawFilename
             in Inr (s\<lparr>console := console s @ [Skip url existingLocalRef],
                       config := set_all setters existingLocalRef (config s),
                       skipped := skipped s + 1\<rparr>)
           else
             (case downloadFile P url filename (files s) of
                (Resolved, files') \<Rightarrow>
                  Inr (s\<lparr>files := files',
                         console := console s @ [Downloading url, Saved url localRef],
                         config := set_all setters localRef (config s),
                         downloaded := downloaded s + 1\<rparr>)
              | (Rejected message, files') \<Rightarrow>
                  let msg = ''Failed to download '' @ url @ '': '' @ message
                  in Inr (s\<lparr>files := files',
                            console := console s @ [Downloading url, Error msg],
                            run_errors := run_errors s @ [msg]\<rparr>)
              | (Uncaught message, files') \<Rightarrow> Inl message))"

text \<open>The loop: the turns in the order of \<open>urlMap\<close>, as long as the process lives.\<close>

fun for_each_url :: "'a platform_scheme \<Rightarrow> url_map \<Rightarrow> run \<Rightarrow> string + run" where
  "for_each_url P [] s = Inr s"
| "for_each_url P (entry # rest) s =
     (case resolve_url P entry s of
        Inl message \<Rightarrow> Inl message
      | Inr s' \<Rightarrow> for_each_url P rest s')"

text \<open>
  The configuration file: \<open>fs.readFileSync\<close> throws, \<open>JSON.parse\<close> throws, or the file
  holds a tree. \<open>JSON.stringify\<close> followed by \<open>JSON.parse\<close> gives the tree back, so a
  file that was written holds the tree that was written.
\<close>

datatype config_file = Unreadable string | Unparseable string | Holds json

text \<open>
  What a call leaves: the \<open>stats\<close> object it returns, the tree handed to
  \<open>fs.writeFileSync\<close> if that was called, the destination directory and the console.
\<close>

record outcome =
  stats_downloaded :: nat
  stats_skipped :: nat
  stats_errors :: "string list"
  written :: "json option"
  assets :: directory
  printed :: "event list"

text \<open>The state at the head of the loop, and after its last turn.\<close>

definition loop_start :: "json \<Rightarrow> directory \<Rightarrow> run" where
  "loop_start config0 dir =
     \<lparr>config = config0, files = dir, reservedFilenames = [], downloaded = 0, skipped = 0,
      run_errors = [],
      console = [Found (length (collectRemoteUrls config0)),
                 Unique (length (deduplicateByUrl (collectRemoteUrls config0)))]\<rparr>"

definition loop_end :: "'a platform_scheme \<Rightarrow> json \<Rightarrow> directory \<Rightarrow> string + run" where
  "loop_end P config0 dir =
     for_each_url P (deduplicateByUrl (collectRemoteUrls config0)) (loop_start config0 dir)"



text \<open>
  How a call of \<open>downloadAssets\<close> can fail: it throws an \<open>Error\<close> (its promise is
  rejected), or the process dies in the loop, before \<open>fs.writeFileSync\<close> and before the
  function returns.
\<close>

datatype failure = Throws string | Dies string

text \<open>
  \<open>downloadAssets\<close>. What \<open>fs.mkdirSync\<close> throws leaves the function as it is. The
  \<open>try\<close> around \<open>fs.writeFileSync\<close> turns a failed write into one more entry of
  \<open>stats.errors\<close>.
\<close>

definition downloadAssets ::
  "'a platform_scheme \<Rightarrow> config_file \<Rightarrow> directory \<Rightarrow> failure + outcome" where
  "downloadAssets P file dir =
     (case file of
        Unreadable message \<Rightarrow>
          Inl (Throws (''Failed to read config file at '' @ config_path P @ '': '' @ message))
      | Unparseable message \<Rightarrow> Inl (Throws (''Failed to parse config JSON: '' @ message))
      | Holds config0 \<Rightarrow>
          (let entries = collectRemoteUrls config0
           in if length entries = 0 then
                Inr \<lparr>stats_downloaded = 0, stats_skipped = 0, stats_errors = [],
                     written = None, assets = dir, printed = [NothingToDo]\<rparr>
              else
                (case mkdir_error P of
                   Some message \<Rightarrow> Inl (Throws message)
                 | None \<Rightarrow>
                (case loop_end P config0 dir of
                   Inl message \<Rightarrow> Inl (Dies message)
                 | Inr s \<Rightarrow>
                (let s = (case write_error P of
                            None \<Rightarrow> s\<lparr>console := console s @ [ConfigWritten]\<rparr>
                          | Some message \<Rightarrow>
                              let msg = ''Failed to write updated config: '' @ message
                              in s\<lparr>console := console s @ [Error msg],
                                   run_errors := run_errors s @ [msg]\<rparr>)
                 in Inr \<lparr>stats_downloaded = downloaded s, stats_skipped = skipped s,
                         stats_errors = run_errors s, written = Some (config s), assets = files s,
                         printed = console s @ [Done (downloaded s) (skipped s) (length (run_errors s))]\<rparr>)))))"

text \<open>The configuration file after a call.\<close>

definition file_after :: "'a platform_scheme \<Rightarrow> config_file \<Rightarrow> outcome \<Rightarrow> config_file" where
  "file_after P file out =
     (case written out of
        None \<Rightarrow> file
      | Some tree \<Rightarrow> if write_error P = None then Holds tree else file)"

subsection \<open>Reading the console\<close>

text \<open>
  A \<open>Downloading\<close> line is printed exactly when \<open>downloadFile\<close> is called, a \<open>Skip\<close>
  line exactly when the cache check succeeds. \<open>resolution\<close> is the local path that the
  console reports for a URL, in a \<open>Skip\<close> or a \<open>Saved\<close> line.
\<close>

fun record_event :: "(string \<Rightarrow> string option) \<Rightarrow> event \<Rightarrow> (string \<Rightarrow> string option)" where
  "record_event r (Skip u v) = r(u \<mapsto> v)"
| "record_event r (Saved u v) = r(u \<mapsto> v)"
| "record_event r _ = r"

definition resolution :: "event list \<Rightarrow> string \<Rightarrow> string option" where
  "resolution evs = foldl record_event Map.empty evs"

definition fetches :: "event list \<Rightarrow> string \<Rightarrow> nat" where
  "fetches evs u = count_list evs (Downloading u)"

fun is_skip :: "string \<Rightarrow> event \<Rightarrow> bool" where
  "is_skip u (Skip u' v) = (u' = u)"
| "is_skip u _ = False"

definition cache_hits :: "event list \<Rightarrow> string \<Rightarrow> nat" where
  "cache_hits evs u = length (filter (is_skip u) evs)"

section \<open>Schemas and their interpretation (the zod library, as pipeline/schemas.js uses it)\<close>

text \<open>
  The schemas of the pipeline are values built with the combinators of zod. They are
  kept as values here: a datatype of schemas, one constructor for each combinator the
  pipeline uses, and \<open>parse\<close>, which is \<open>schema.safeParse\<close>. The issue lists follow
  zod 3: an issue has a path, a code and a message; a message that the schema does not
  supply is the library's default text for the code and is kept as \<open>Default code\<close>.
\<close>

datatype issue_code =
    invalid_type
  | invalid_enum_value
  | invalid_literal
  | invalid_union
  | too_small
  | too_big
  | invalid_string
  | custom

datatype wording = Text string | Default issue_code

datatype issue = Issue (issue_path: "key list") (issue_code: issue_code) (issue_message: wording)

text \<open>
  The checks on a string: \<open>.trim()\<close>, \<open>.min(n, message)\<close>, and a pattern with a message
  (\<open>.email(message)\<close>).
\<close>

datatype check = Trim | MinLength nat string | Matches "string \<Rightarrow> bool" string

datatype schema =
    ZString "check list"
  | ZNumber "real option" "real option"
  | ZBoolean
  | ZEnum "string list"
  | ZLiteral json
  | ZAny
  | ZArray schema "(nat \<times> string) option" "(nat \<times> string) option"
  | ZObject "(string \<times> schema) list"
  | ZRecord schema schema
  | ZUnion "schema list"
  | ZOptional schema
  | ZRefine schema "json \<Rightarrow> bool" string "key list"

text \<open>
  A parse that stops at a value of the wrong type is aborted; one that only fails a check
  is not. zod runs a refinement unless the parse of its base schema was aborted, and a
  union returns the issues of its first option that was not aborted. The issue codes tell
  the two apart.
\<close>

definition aborting :: "issue_code \<Rightarrow> bool" where
  "aborting c = (c = invalid_type \<or> c = invalid_enum_value \<or> c = invalid_literal \<or> c = invalid_union)"

definition aborted :: "issue list \<Rightarrow> bool" where
  "aborted issues = list_ex (\<lambda>i. aborting (issue_code i)) issues"

definition invalid :: "issue_code \<Rightarrow> issue list \<times> json option" where
  "invalid c = ([Issue [] c (Default c)], None)"

definition below :: "key \<Rightarrow> issue \<Rightarrow> issue" where
  "below k i = Issue (k # issue_path i) (issue_code i) (issue_message i)"

text \<open>
  How zod puts the result of a schema together from the results of its parts: a result is
  the list of issues and the output.
\<close>

definition with_issues :: "issue list \<Rightarrow> issue list \<times> 'a \<Rightarrow> issue list \<times> 'a" where
  "with_issues issues r = (issues @ fst r, snd r)"

fun run_checks :: "check list \<Rightarrow> string \<Rightarrow> issue list \<times> string" where
  "run_checks [] s = ([], s)"
| "run_checks (Trim # cs) s = run_checks cs (trim s)"
| "run_checks (MinLength n message # cs) s =
     with_issues (if length s < n then [Issue [] too_small (Text message)] else [])
       (run_checks cs s)"
| "run_checks (Matches p message # cs) s =
     with_issues (if \<not> p s then [Issue [] invalid_string (Text message)] else [])
       (run_checks cs s)"

definition string_result :: "issue list \<times> string \<Rightarrow> issue list \<times> json option" where
  "string_result r = (fst r, Some (JStr (snd r)))"

definition length_issues ::
  "(nat \<times> string) option \<Rightarrow> (nat \<times> string) option \<Rightarrow> nat \<Rightarrow> issue list" where
  "length_issues minimum maximum n =
     (case minimum of
        Some (m, message) \<Rightarrow> if n < m then [Issue [] too_small (Text message)] else []
      | None \<Rightarrow> [])
     @ (case maximum of
          Some (m, message) \<Rightarrow> if m < n then [Issue [] too_big (Text message)] else []
        | None \<Rightarrow> [])"

definition range_issues :: "real option \<Rightarrow> real option \<Rightarrow> real \<Rightarrow> issue list" where
  "range_issues minimum maximum n =
     (case minimum of Some m \<Rightarrow> if n < m then [Issue [] too_small (Default too_small)] else []
      | None \<Rightarrow> [])
     @ (case maximum of Some m \<Rightarrow> if m < n then [Issue [] too_big (Default too_big)] else []
        | None \<Rightarrow> [])"

fun output_or_null :: "json option \<Rightarrow> json" where
  "output_or_null (Some y) = y"
| "output_or_null None = JNull"

text \<open>An array, from the results of its elements.\<close>

definition array_result ::
  "(nat \<times> string) option \<Rightarrow> (nat \<times> string) option \<Rightarrow> (issue list \<times> json option) list
    \<Rightarrow> issue list \<times> json option" where
  "array_result minimum maximum rs =
     (length_issues minimum maximum (length rs)
        @ concat (map (\<lambda>(i, r). map (below (Index i)) (fst r)) (enumerate 0 rs)),
      Some (JArr (map (\<lambda>r. output_or_null (snd r)) rs)))"

text \<open>
  An object: the result for the key \<open>k\<close> put before the results for the keys after it.
  A key is in the output when its value is defined.
\<close>

definition shape_result ::
  "string \<Rightarrow> issue list \<times> json option \<Rightarrow> issue list \<times> (string \<times> json) list
    \<Rightarrow> issue list \<times> (string \<times> json) list" where
  "shape_result k r rs =
     (map (below (Prop k)) (fst r) @ fst rs,
      (case snd r of Some y \<Rightarrow> (k, y) # snd rs | None \<Rightarrow> snd rs))"

definition object_result :: "issue list \<times> (string \<times> json) list \<Rightarrow> issue list \<times> json option" where
  "object_result r = (fst r, Some (JObj (snd r)))"

text \<open>A record, from the results of each key and each value.\<close>

definition record_result ::
  "(string \<times> (issue list \<times> json option) \<times> (issue list \<times> json option)) list
    \<Rightarrow> issue list \<times> json option" where
  "record_result krs =
     (concat (map (\<lambda>(k, rk, rv). map (below (Prop k)) (fst rk @ fst rv)) krs),
      Some (JObj (map (\<lambda>(k, rk, rv). (k, output_or_null (snd rv))) krs)))"

text \<open>
  A union: the first option without issues; failing that the first option that was not
  aborted; failing that the issue \<open>invalid_union\<close>.
\<close>

definition union_result :: "(issue list \<times> json option) list \<Rightarrow> issue list \<times> json option" where
  "union_result rs =
     (case find (\<lambda>r. fst r = []) rs of
        Some r \<Rightarrow> r
      | None \<Rightarrow>
          (case find (\<lambda>r. \<not> aborted (fst r)) rs of
             Some r \<Rightarrow> r
           | None \<Rightarrow> invalid invalid_union))"

text \<open>A refinement: the predicate runs on the output of the base schema unless that parse was aborted.\<close>

definition refine_result ::
  "(json \<Rightarrow> bool) \<Rightarrow> string \<Rightarrow> key list \<Rightarrow> issue list \<times> json option \<Rightarrow> issue list \<times> json option" where
  "refine_result ok message place r =
     (if aborted (fst r) then (fst r, None)
      else
        (case snd r of
           Some y \<Rightarrow> (fst r @ (if ok y then [] else [Issue place custom (Text message)]), Some y)
         | None \<Rightarrow> (fst r, None)))"

text \<open>
  \<open>parse S v\<close>: the issues and the output of \<open>S.safeParse(v)\<close>; \<open>v = None\<close> is
  \<open>undefined\<close>, the value of a missing property. The parse succeeds when the issue list
  is empty, and the output is then \<open>result.data\<close>: strings trimmed where the schema
  trims, objects reduced to the keys of their shape.
\<close>

fun parse :: "schema \<Rightarrow> json option \<Rightarrow> issue list \<times> json option"
  and parse_shape :: "(string \<times> schema) list \<Rightarrow> (string \<times> json) list \<Rightarrow> issue list \<times> (string \<times> json) list"
  and parse_options :: "schema list \<Rightarrow> json option \<Rightarrow> (issue list \<times> json option) list"
where
  "parse (ZString checks) v =
     (case v of Some (JStr s) \<Rightarrow> string_result (run_checks checks s) | _ \<Rightarrow> invalid invalid_type)"
| "parse (ZNumber minimum maximum) v =
     (case v of
        Some (JNum n) \<Rightarrow> (range_issues minimum maximum n, Some (JNum n))
      | _ \<Rightarrow> invalid invalid_type)"
| "parse ZBoolean v =
     (case v of Some (JBool b) \<Rightarrow> ([], Some (JBool b)) | _ \<Rightarrow> invalid invalid_type)"
| "parse (ZEnum values) v =
     (case v of
        Some (JStr s) \<Rightarrow> if s \<in> set values then ([], Some (JStr s)) else invalid invalid_enum_value
      | _ \<Rightarrow> invalid invalid_type)"
| "parse (ZLiteral x) v = (if v = Some x then ([], v) else invalid invalid_literal)"
| "parse ZAny v = ([], v)"
| "parse (ZArray S minimum maximum) v =
     (case v of
        Some (JArr xs) \<Rightarrow> array_result minimum maximum (map (\<lambda>x. parse S (Some x)) xs)
      | _ \<Rightarrow> invalid invalid_type)"
| "parse (ZObject shape) v =
     (case v of
        Some (JObj kvs) \<Rightarrow> object_result (parse_shape shape kvs)
      | _ \<Rightarrow> invalid invalid_type)"
| "parse (ZRecord K V) v =
     (case v of
        Some (JObj kvs) \<Rightarrow>
          record_result (map (\<lambda>(k, x). (k, parse K (Some (JStr k)), parse V (Some x))) kvs)
      | _ \<Rightarrow> invalid invalid_type)"
| "parse (ZUnion options) v = union_result (parse_options options v)"
| "parse (ZOptional S) v = (case v of None \<Rightarrow> ([], None) | Some x \<Rightarrow> parse S (Some x))"
| "parse (ZRefine S ok message place) v = refine_result ok message place (parse S v)"
| "parse_shape [] kvs = ([], [])"
| "parse_shape ((k, S) # rest) kvs =
     shape_result k (parse S (map_of kvs k)) (parse_shape rest kvs)"
| "parse_options [] v = []"
| "parse_options (S # rest) v = parse S v # parse_options rest v"

text \<open>Reading a validated value: \<open>data.k\<close>, JavaScript truthiness, \<open>Array.prototype.join\<close>.\<close>

fun get_prop :: "string \<Rightarrow> json \<Rightarrow> json option" where
  "get_prop k (JObj kvs) = map_of kvs k"
| "get_prop k _ = None"

fun js_truthy :: "json option \<Rightarrow> bool" where
  "js_truthy None = False"
| "js_truthy (Some JNull) = False"
| "js_truthy (Some (JBool b)) = b"
| "js_truthy (Some (JNum n)) = (n \<noteq> 0)"
| "js_truthy (Some (JStr s)) = (s \<noteq> [])"
| "js_truthy (Some (JArr xs)) = True"
| "js_truthy (Some (JObj kvs)) = True"

fun elements :: "json option \<Rightarrow> json list" where
  "elements (Some (JArr xs)) = xs"
| "elements _ = []"

fun join :: "string \<Rightarrow> string list \<Rightarrow> string" where
  "join sep [] = []"
| "join sep [x] = x"
| "join sep (x # y # ys) = x @ sep @ join sep (y # ys)"

fun segment :: "key \<Rightarrow> string" where
  "segment (Index i) = dec i"
| "segment (Prop k) = k"

section \<open>The schemas of the pipeline (pipeline/schemas.js)\<close>

text \<open>An entry of \<open>errors\<close> or \<open>warnings\<close>: \<open>{ path, message }\<close>.\<close>

record problem =
  path :: string
  message :: wording

text \<open>
  What the schemas and the validator take from outside: whether \<open>new URL(val)\<close>
  succeeds, the pattern behind \<open>.email()\<close>, and the warnings of step 4 of
  \<open>validateSiteConfig\<close> (the diacritics heuristic, which reads the validated
  configuration and only ever adds warnings).
\<close>

record validator =
  url_parses :: "string \<Rightarrow> bool"
  is_email :: "string \<Rightarrow> bool"
  lint :: "json \<Rightarrow> problem list"

definition nonEmptyString :: schema where
  "nonEmptyString = ZString [Trim, MinLength 1 ''Must not be empty'']"

fun url_or_path :: "'a validator_scheme \<Rightarrow> json \<Rightarrow> bool" where
  "url_or_path E (JStr val) =
     (if startsWith val ''/'' \<or> startsWith val ''./'' \<or> startsWith val ''../'' then True
      else if startsWith val ''assets/'' \<or> startsWith val ''public/'' then True
      else if startsWith val ''data:'' then True
      else if CHR ''/'' \<in> set val \<and> CHR '' '' \<notin> set val \<and> \<not> startsWith val ''http'' then True
      else url_parses E val)"
| "url_or_path E _ = False"

definition urlString :: "'a validator_scheme \<Rightarrow> schema" where
  "urlString E =
     ZRefine (ZString [Trim, MinLength 1 ''URL must not be empty'']) (url_or_path E)
       ''Must be a valid URL or relative path'' []"

definition optionalUrlString :: "'a validator_scheme \<Rightarrow> schema" where
  "optionalUrlString E = ZOptional (urlString E)"

fun has_keys :: "json \<Rightarrow> bool" where
  "has_keys (JObj kvs) = (0 < length kvs)"
| "has_keys _ = False"

definition LocalizedTextSchema :: schema where
  "LocalizedTextSchema =
     ZUnion [
       ZString [Trim, MinLength 1 ''Text must not be empty''],
       ZRefine
         (ZRecord (ZString [MinLength 1 ''Language key must not be empty''])
                  (ZString [Trim, MinLength 1 ''Localized text must not be empty'']))
         has_keys ''Must have at least one language'' []]"

definition CtaButtonSchema :: "'a validator_scheme \<Rightarrow> schema" where
  "CtaButtonSchema E =
     ZRefine
       (ZObject [
          (''label'', LocalizedTextSchema),
          (''anchor'', ZOptional (ZString [Trim, MinLength 1 ''Anchor must not be empty''])),
          (''href'', ZOptional (urlString E)),
          (''variant'', ZOptional (ZEnum [''primary'', ''outline'', ''gold'', ''secondary''])),
          (''icon'', ZOptional (ZString [Trim, MinLength 1 ''Icon must not be empty''])),
          (''iconPosition'', ZOptional (ZEnum [''left'', ''right'']))])
       (\<lambda>data. js_truthy (get_prop ''anchor'' data) \<or> js_truthy (get_prop ''href'' data))
       ''Either \"anchor\" or \"href\" must be provided'' []"

definition SocialLinkSchema :: "'a validator_scheme \<Rightarrow> schema" where
  "SocialLinkSchema E =
     ZObject [
       (''platform'', nonEmptyString),
       (''url'', urlString E),
       (''label'', ZOptional (ZString [Trim, MinLength 1 ''Label must not be empty'']))]"

definition HeroPropsSchema :: "'a validator_scheme \<Rightarrow> schema" where
  "HeroPropsSchema E =
     ZObject [
       (''backgroundImage'', optionalUrlString E),
       (''backgroundBlur'', ZOptional (ZEnum [''none'', ''sm'', ''md'', ''lg''])),
       (''overlayColor'', ZOptional (ZString [])),
       (''overlayOpacity'', ZOptional (ZNumber (Some 0) (Some 100))),
       (''title'', LocalizedTextSchema),
       (''subtitle'', ZOptional LocalizedTextSchema),
       (''badge'', ZOptional LocalizedTextSchema),
       (''quote'', ZOptional (ZObject [
          (''text'', LocalizedTextSchema),
          (''author'', ZOptional nonEmptyString)])),
       (''cta'', ZOptional (ZArray (CtaButtonSchema E) None None)),
       (''overlayGradient'', ZOptional ZBoolean),
       (''scrollIndicator'', ZOptional ZBoolean),
       (''scrollTarget'', ZOptional nonEmptyString),
       (''profileImage'', optionalUrlString E),
       (''ratingBadge'', ZOptional (ZObject [
          (''score'', nonEmptyString),
          (''label'', LocalizedTextSchema)])),
       (''layout'', ZOptional (ZEnum [''centered'', ''split''])),
       (''stats'', ZOptional (ZArray (ZObject [
          (''value'', nonEmptyString),
          (''label'', LocalizedTextSchema),
          (''icon'', ZOptional nonEmptyString)]) None None))]"

definition ServiceItemSchema :: schema where
  "ServiceItemSchema =
     ZObject [
       (''icon'', ZOptional nonEmptyString),
       (''title'', LocalizedTextSchema),
       (''description'', LocalizedTextSchema),
       (''features'', ZOptional (ZArray LocalizedTextSchema None None))]"

definition ServiceGroupSchema :: "'a validator_scheme \<Rightarrow> schema" where
  "ServiceGroupSchema E =
     ZObject [
       (''title'', LocalizedTextSchema),
       (''image'', optionalUrlString E),
       (''services'', ZArray ServiceItemSchema None None)]"

definition ServicesPropsSchema :: "'a validator_scheme \<Rightarrow> schema" where
  "ServicesPropsSchema E =
     ZRefine
       (ZObject [
          (''label'', ZOptional LocalizedTextSchema),
          (''title'', LocalizedTextSchema),
          (''subtitle'', ZOptional LocalizedTextSchema),
          (''services'', ZOptional (ZArray ServiceItemSchema None None)),
          (''groups'', ZOptional (ZArray (ServiceGroupSchema E) None None)),
          (''tags'', ZOptional (ZArray (ZObject [(''label'', LocalizedTextSchema)]) None None)),
          (''cardSize'', ZOptional (ZEnum [''compact'', ''normal'', ''large''])),
          (''columns'', ZOptional (ZUnion [ZLiteral (JNum 2), ZLiteral (JNum 3), ZLiteral (JNum 4)])),
          (''highlight'', ZOptional (ZObject [
             (''title'', LocalizedTextSchema),
             (''description'', ZOptional LocalizedTextSchema),
             (''image'', optionalUrlString E),
             (''tags'', ZOptional (ZArray LocalizedTextSchema None None)),
             (''stats'', ZOptional (ZArray (ZObject [
                (''value'', nonEmptyString),
                (''label'', LocalizedTextSchema)]) None None)),
             (''cta'', ZOptional (ZObject [
                (''label'', LocalizedTextSchema),
                (''anchor'', ZOptional nonEmptyString),
                (''href'', optionalUrlString E),
                (''icon'', ZOptional nonEmptyString),
                (''iconPosition'', ZOptional (ZEnum [''left'', ''right'']))]))]))])
       (\<lambda>data. js_truthy (get_prop ''services'' data) \<or> js_truthy (get_prop ''groups'' data))
       ''Either \"services\" or \"groups\" must be provided'' []"

definition GalleryItemSchema :: "'a validator_scheme \<Rightarrow> schema" where
  "GalleryItemSchema E =
     ZObject [
       (''src'', urlString E),
       (''alt'', ZOptional LocalizedTextSchema),
       (''title'', ZOptional LocalizedTextSchema),
       (''location'', ZOptional LocalizedTextSchema),
       (''category'', ZOptional LocalizedTextSchema)]"

definition GalleryPropsSchema :: "'a validator_scheme \<Rightarrow> schema" where
  "GalleryPropsSchema E =
     ZObject [
       (''label'', ZOptional LocalizedTextSchema),
       (''title'', LocalizedTextSchema),
       (''subtitle'', ZOptional LocalizedTextSchema),
       (''items'', ZArray (GalleryItemSchema E) (Some (1, ''Gallery must have at least one item'')) None),
       (''columns'', ZOptional (ZNumber None None)),
       (''aspectRatio'', ZOptional (ZEnum [''4:3'', ''1:1'', ''3:4'', ''16:9''])),
       (''maxInitialItems'', ZOptional (ZNumber None None)),
       (''loadMoreLabel'', ZOptional LocalizedTextSchema),
       (''layout'', ZOptional (ZEnum [''grid'', ''strip''])),
       (''thumbnailSize'', ZOptional (ZEnum [''sm'', ''md'', ''lg'']))]"

definition AboutPropsSchema :: "'a validator_scheme \<Rightarrow> schema" where
  "AboutPropsSchema E =
     ZObject [
       (''label'', ZOptional LocalizedTextSchema),
       (''title'', LocalizedTextSchema),
       (''content'', ZArray LocalizedTextSchema
          (Some (1, ''About section must have at least one content paragraph'')) None),
       (''image'', optionalUrlString E),
       (''imagePosition'', ZOptional (ZEnum [''left'', ''right''])),
       (''floatingCard'', ZOptional (ZObject [
          (''icon'', ZOptional nonEmptyString),
          (''label'', LocalizedTextSchema),
          (''text'', LocalizedTextSchema)])),
       (''stats'', ZOptional (ZArray (ZObject [
          (''icon'', ZOptional nonEmptyString),
          (''label'', LocalizedTextSchema),
          (''value'', nonEmptyString)]) None None)),
       (''quote'', ZOptional (ZObject [
          (''text'', LocalizedTextSchema),
          (''author'', ZOptional nonEmptyString)])),
       (''highlights'', ZOptional (ZArray (ZObject [(''text'', LocalizedTextSchema)]) None None)),
       (''values'', ZOptional (ZArray (ZObject [
          (''icon'', ZOptional nonEmptyString),
          (''title'', LocalizedTextSchema),
          (''description'', LocalizedTextSchema)]) None None))]"

definition ContactPropsSchema :: "'a validator_scheme \<Rightarrow> schema" where
  "ContactPropsSchema E =
     ZObject [
       (''label'', ZOptional LocalizedTextSchema),
       (''title'', LocalizedTextSchema),
       (''subtitle'', ZOptional LocalizedTextSchema),
       (''phone'', ZOptional (ZUnion [
          nonEmptyString,
          ZArray (ZObject [
            (''label'', ZOptional LocalizedTextSchema),
            (''number'', nonEmptyString)]) None None])),
       (''email'', ZOptional (ZString [Trim, MinLength 1 ''Email must not be empty'',
          Matches (is_email E) ''Must be a valid email address''])),
       (''address'', ZOptional (ZObject [
          (''street'', nonEmptyString),
          (''city'', nonEmptyString),
          (''postalCode'', nonEmptyString),
          (''country'', ZOptional nonEmptyString),
          (''mapsUrl'', optionalUrlString E)])),
       (''coordinates'', ZOptional (ZObject [
          (''lat'', ZNumber None None),
          (''lng'', ZNumber None None)])),
       (''hours'', ZOptional (ZObject [
          (''label'', LocalizedTextSchema),
          (''schedule'', ZArray (ZObject [
             (''days'', LocalizedTextSchema),
             (''hours'', LocalizedTextSchema)]) None None)])),
       (''ctaCard'', ZOptional (ZObject [
          (''title'', LocalizedTextSchema),
          (''subtitle'', ZOptional LocalizedTextSchema),
          (''buttons'', ZOptional (ZArray (CtaButtonSchema E) None None))])),
       (''socialLinks'', ZOptional (ZArray (SocialLinkSchema E) None None)),
       (''mapEmbed'', optionalUrlString E),
       (''languages'', ZOptional (ZArray nonEmptyString None None)),
       (''paymentMethods'', ZOptional (ZArray nonEmptyString None None)),
       (''note'', ZOptional LocalizedTextSchema),
       (''instagramEmbed'', ZOptional (ZObject [
          (''username'', nonEmptyString),
          (''displayText'', ZOptional LocalizedTextSchema)]))]"

definition HoursPropsSchema :: "'a validator_scheme \<Rightarrow> schema" where
  "HoursPropsSchema E =
     ZObject [
       (''label'', ZOptional LocalizedTextSchema),
       (''title'', LocalizedTextSchema),
       (''subtitle'', ZOptional LocalizedTextSchema),
       (''schedule'', ZArray (ZObject [
          (''day'', LocalizedTextSchema),
          (''morning'', ZOptional nonEmptyString),
          (''afternoon'', ZOptional nonEmptyString),
          (''continuous'', ZOptional nonEmptyString),
          (''closed'', ZOptional ZBoolean)])
          (Some (1, ''Schedule must have at least one day entry'')) None),
       (''ctaButton'', ZOptional (ZObject [
          (''label'', LocalizedTextSchema),
          (''phone'', ZOptional nonEmptyString),
          (''href'', optionalUrlString E),
          (''icon'', ZOptional nonEmptyString),
          (''iconPosition'', ZOptional (ZEnum [''left'', ''right'']))])),
       (''paymentMethods'', ZOptional (ZArray nonEmptyString None None)),
       (''showTodayBadge'', ZOptional ZBoolean),
       (''showOpenClosedBadge'', ZOptional ZBoolean),
       (''timezone'', ZOptional nonEmptyString),
       (''note'', ZOptional LocalizedTextSchema),
       (''uiStrings'', ZOptional (ZObject [
          (''today'', ZOptional LocalizedTextSchema),
          (''closed'', ZOptional LocalizedTextSchema),
          (''paymentMethods'', ZOptional LocalizedTextSchema),
          (''open'', ZOptional LocalizedTextSchema)]))]"

definition FeaturedPropsSchema :: "'a validator_scheme \<Rightarrow> schema" where
  "FeaturedPropsSchema E =
     ZObject [
       (''label'', ZOptional LocalizedTextSchema),
       (''title'', LocalizedTextSchema),
       (''description'', ZOptional LocalizedTextSchema),
       (''item'', ZObject [
          (''image'', urlString E),
          (''badge'', ZOptional LocalizedTextSchema),
          (''region'', ZOptional LocalizedTextSchema),
          (''name'', LocalizedTextSchema),
          (''producer'', ZOptional LocalizedTextSchema),
          (''details'', ZOptional (ZArray (ZObject [
             (''label'', LocalizedTextSchema),
             (''text'', LocalizedTextSchema)]) None None)),
          (''volume'', ZOptional nonEmptyString)]),
       (''categories'', ZOptional (ZArray (ZObject [
          (''name'', LocalizedTextSchema),
          (''count'', LocalizedTextSchema)]) None None))]"

definition TestimonialsPropsSchema :: "'a validator_scheme \<Rightarrow> schema" where
  "TestimonialsPropsSchema E =
     ZObject [
       (''label'', ZOptional LocalizedTextSchema),
       (''title'', LocalizedTextSchema),
       (''subtitle'', ZOptional LocalizedTextSchema),
       (''testimonials'', ZArray (ZObject [
          (''quote'', LocalizedTextSchema),
          (''author'', LocalizedTextSchema),
          (''role'', ZOptional LocalizedTextSchema),
          (''rating'', ZOptional (ZNumber (Some 1) (Some 5))),
          (''image'', optionalUrlString E)])
          (Some (1, ''Testimonials section must have at least one testimonial'')) None)]"

definition CtaBannerPropsSchema :: "'a validator_scheme \<Rightarrow> schema" where
  "CtaBannerPropsSchema E =
     ZObject [
       (''title'', LocalizedTextSchema),
       (''subtitle'', ZOptional LocalizedTextSchema),
       (''backgroundImage'', optionalUrlString E),
       (''backgroundColor'', ZOptional (ZString [])),
       (''cta'', CtaButtonSchema E)]"

definition TextBlockPropsSchema :: schema where
  "TextBlockPropsSchema =
     ZObject [
       (''title'', ZOptional LocalizedTextSchema),
       (''content'', LocalizedTextSchema)]"

definition MapPropsSchema :: "'a validator_scheme \<Rightarrow> schema" where
  "MapPropsSchema E =
     ZObject [
       (''embedUrl'', optionalUrlString E),
       (''address'', ZOptional LocalizedTextSchema),
       (''mapsUrl'', optionalUrlString E),
       (''staticImage'', optionalUrlString E),
       (''title'', ZOptional LocalizedTextSchema),
       (''coordinates'', ZOptional (ZObject [
          (''lat'', ZNumber None None),
          (''lng'', ZNumber None None)])),
       (''zoom'', ZOptional (ZNumber None None))]"

text \<open>The registry: section type to schema.\<close>

definition sectionPropsSchemas :: "'a validator_scheme \<Rightarrow> (string \<times> schema) list" where
  "sectionPropsSchemas E =
     [(''hero'', HeroPropsSchema E),
      (''services'', ServicesPropsSchema E),
      (''gallery'', GalleryPropsSchema E),
      (''about'', AboutPropsSchema E),
      (''contact'', ContactPropsSchema E),
      (''hours'', HoursPropsSchema E),
      (''featured'', FeaturedPropsSchema E),
      (''testimonials'', TestimonialsPropsSchema E),
      (''cta-banner'', CtaBannerPropsSchema E),
      (''text-block'', TextBlockPropsSchema),
      (''map'', MapPropsSchema E)]"

definition FontConfigSchema :: schema where
  "FontConfigSchema =
     ZObject [
       (''family'', nonEmptyString),
       (''weights'', ZArray (ZNumber (Some 100) (Some 900))
          (Some (1, ''At least one font weight is required'')) None),
       (''fallback'', ZOptional nonEmptyString)]"

definition ThemeColorsSchema :: schema where
  "ThemeColorsSchema =
     ZObject [
       (''primary'', ZString []),
       (''primary-foreground'', ZOptional (ZString [])),
       (''secondary'', ZOptional (ZString [])),
       (''secondary-foreground'', ZOptional (ZString [])),
       (''accent'', ZOptional (ZString [])),
       (''accent-foreground'', ZOptional (ZString [])),
       (''background'', ZString []),
       (''foreground'', ZString []),
       (''card'', ZOptional (ZString [])),
       (''card-foreground'', ZOptional (ZString [])),
       (''popover'', ZOptional (ZString [])),
       (''popover-foreground'', ZOptional (ZString [])),
       (''muted'', ZOptional (ZString [])),
       (''muted-foreground'', ZOptional (ZString [])),
       (''border'', ZOptional (ZString [])),
       (''input'', ZOptional (ZString [])),
       (''ring'', ZOptional (ZString [])),
       (''destructive'', ZOptional (ZString [])),
       (''destructive-foreground'', ZOptional (ZString [])),
       (''custom'', ZOptional (ZRecord (ZString []) (ZString [])))]"

definition ThemeConfigSchema :: schema where
  "ThemeConfigSchema =
     ZObject [
       (''colors'', ThemeColorsSchema),
       (''fonts'', ZObject [
          (''heading'', FontConfigSchema),
          (''body'', FontConfigSchema)]),
       (''borderRadius'', ZOptional (ZString [])),
       (''shadows'', ZOptional (ZRecord (ZString []) (ZString []))),
       (''gradients'', ZOptional (ZRecord (ZString []) (ZString []))),
       (''buttonStyle'', ZOptional (ZObject [
          (''borderRadius'', ZOptional (ZEnum [''none'', ''sm'', ''md'', ''lg'', ''full'']))]))]"

definition SeoConfigSchema :: "'a validator_scheme \<Rightarrow> schema" where
  "SeoConfigSchema E =
     ZObject [
       (''title'', LocalizedTextSchema),
       (''description'', LocalizedTextSchema),
       (''keywords'', ZOptional (ZArray nonEmptyString None None)),
       (''ogImage'', optionalUrlString E),
       (''canonical'', optionalUrlString E),
       (''locale'', ZOptional nonEmptyString),
       (''structuredData'', ZOptional (ZRecord (ZString []) ZAny)),
       (''favicon'', optionalUrlString E),
       (''appleTouchIcon'', optionalUrlString E)]"

definition NavLinkSchema :: schema where
  "NavLinkSchema =
     ZObject [
       (''label'', LocalizedTextSchema),
       (''anchor'', nonEmptyString)]"

definition NavigationConfigSchema :: "'a validator_scheme \<Rightarrow> schema" where
  "NavigationConfigSchema E =
     ZObject [
       (''links'', ZArray NavLinkSchema None None),
       (''showLanguageSwitcher'', ZOptional ZBoolean),
       (''logo'', optionalUrlString E),
       (''logoDark'', optionalUrlString E),
       (''logoText'', ZOptional LocalizedTextSchema),
       (''logoSubtext'', ZOptional LocalizedTextSchema),
       (''logoSubtextColor'', ZOptional (ZString [])),
       (''headerStyle'', ZOptional (ZObject [
          (''textColorAtTop'', ZOptional (ZEnum [''light'', ''dark'', ''auto''])),
          (''alwaysShowBackground'', ZOptional ZBoolean)])),
       (''ctaButton'', ZOptional (ZObject [
          (''label'', LocalizedTextSchema),
          (''anchor'', ZOptional nonEmptyString),
          (''href'', optionalUrlString E),
          (''phone'', ZOptional nonEmptyString)]))]"

definition FooterColumnSchema :: "'a validator_scheme \<Rightarrow> schema" where
  "FooterColumnSchema E =
     ZObject [
       (''title'', LocalizedTextSchema),
       (''items'', ZArray (ZObject [
          (''text'', LocalizedTextSchema),
          (''href'', optionalUrlString E)]) None None)]"

definition FooterConfigSchema :: "'a validator_scheme \<Rightarrow> schema" where
  "FooterConfigSchema E =
     ZObject [
       (''copyright'', LocalizedTextSchema),
       (''description'', ZOptional LocalizedTextSchema),
       (''links'', ZOptional (ZArray NavLinkSchema None None)),
       (''socialLinks'', ZOptional (ZArray (SocialLinkSchema E) None None)),
       (''columns'', ZOptional (ZArray (FooterColumnSchema E) None None)),
       (''bottomText'', ZOptional LocalizedTextSchema),
       (''logo'', optionalUrlString E),
       (''layout'', ZOptional (ZEnum [''full'', ''compact'', ''minimal''])),
       (''showNavigation'', ZOptional ZBoolean)]"

definition DisclaimerConfigSchema :: schema where
  "DisclaimerConfigSchema =
     ZObject [
       (''enabled'', ZOptional ZBoolean),
       (''title'', ZOptional LocalizedTextSchema),
       (''message'', ZOptional LocalizedTextSchema),
       (''bulletPoints'', ZOptional (ZArray LocalizedTextSchema None None)),
       (''buttonLabel'', ZOptional LocalizedTextSchema),
       (''icon'', ZOptional nonEmptyString)]"

definition VALID_SECTION_TYPES :: "string list" where
  "VALID_SECTION_TYPES =
     [''hero'', ''services'', ''gallery'', ''about'', ''contact'', ''hours'', ''featured'',
      ''testimonials'', ''cta-banner'', ''text-block'', ''map'']"

definition SectionConfigSchema :: schema where
  "SectionConfigSchema =
     ZObject [
       (''type'', ZEnum VALID_SECTION_TYPES),
       (''id'', nonEmptyString),
       (''props'', ZRecord (ZString []) ZAny)]"

definition PipelineConfigSchema :: schema where
  "PipelineConfigSchema = ZObject [(''steps'', ZOptional (ZArray (ZString []) None None))]"

text \<open>
  The refinement of \<open>SiteConfigSchema\<close>: when \<open>languages\<close> is given and not empty,
  \<open>data.languages.includes(data.defaultLanguage)\<close>.
\<close>

definition default_in_languages :: "json \<Rightarrow> bool" where
  "default_in_languages data =
     (if js_truthy (get_prop ''languages'' data) \<and> 0 < length (elements (get_prop ''languages'' data))
      then output_or_null (get_prop ''defaultLanguage'' data) \<in> set (elements (get_prop ''languages'' data))
      else True)"

definition SiteConfigSchema :: "'a validator_scheme \<Rightarrow> schema" where
  "SiteConfigSchema E =
     ZRefine
       (ZObject [
          (''name'', nonEmptyString),
          (''url'', optionalUrlString E),
          (''languages'', ZOptional (ZArray nonEmptyString None None)),
          (''defaultLanguage'', nonEmptyString),
          (''theme'', ThemeConfigSchema),
          (''seo'', ZOptional (SeoConfigSchema E)),
          (''navigation'', NavigationConfigSchema E),
          (''sections'', ZArray SectionConfigSchema (Some (1, ''At least one section is required'')) None),
          (''footer'', FooterConfigSchema E),
          (''disclaimer'', ZOptional DisclaimerConfigSchema),
          (''pipeline'', ZOptional PipelineConfigSchema)])
       default_in_languages
       ''defaultLanguage must be included in the languages array'' [Prop ''defaultLanguage'']"

section \<open>The hero schema of the render layer (src/schemas/sections.ts)\<close>

text \<open>
  \<open>pipeline/schemas.js\<close> says that it mirrors the schemas of \<open>src/schemas/\<close>. The
  \<open>HeroPropsSchema\<close> there differs in two fields: \<open>overlayColor\<close> is a theme color, and
  \<open>stats\<close> carries the bounds \<open>.min(2, ...)\<close> and \<open>.max(4, ...)\<close>.
\<close>

definition ThemeColorSchema :: schema where
  "ThemeColorSchema =
     ZEnum [''primary'', ''secondary'', ''accent'', ''foreground'', ''background'', ''muted'']"

definition HeroPropsSchema_ts :: "'a validator_scheme \<Rightarrow> schema" where
  "HeroPropsSchema_ts E =
     ZObject [
       (''backgroundImage'', optionalUrlString E),
       (''backgroundBlur'', ZOptional (ZEnum [''none'', ''sm'', ''md'', ''lg''])),
       (''overlayColor'', ZOptional ThemeColorSchema),
       (''overlayOpacity'', ZOptional (ZNumber (Some 0) (Some 100))),
       (''title'', LocalizedTextSchema),
       (''subtitle'', ZOptional LocalizedTextSchema),
       (''badge'', ZOptional LocalizedTextSchema),
       (''quote'', ZOptional (ZObject [
          (''text'', LocalizedTextSchema),
          (''author'', ZOptional nonEmptyString)])),
       (''cta'', ZOptional (ZArray (CtaButtonSchema E) None None)),
       (''overlayGradient'', ZOptional ZBoolean),
       (''scrollIndicator'', ZOptional ZBoolean),
       (''scrollTarget'', ZOptional nonEmptyString),
       (''profileImage'', optionalUrlString E),
       (''ratingBadge'', ZOptional (ZObject [
          (''score'', nonEmptyString),
          (''label'', LocalizedTextSchema)])),
       (''layout'', ZOptional (ZEnum [''centered'', ''split''])),
       (''stats'', ZOptional (ZArray (ZObject [
          (''value'', nonEmptyString),
          (''label'', LocalizedTextSchema),
          (''icon'', ZOptional nonEmptyString)])
          (Some (2, ''Stats must have at least 2 items''))
          (Some (4, ''Stats cannot exceed 4 items''))))]"

section \<open>The validation orchestrator (pipeline/schemas.js)\<close>

text \<open>\<open>issue.path.join('.')\<close>.\<close>

definition path_text :: "key list \<Rightarrow> string" where
  "path_text p = join ''.'' (map segment p)"

text \<open>
  \<open>validateSectionProps\<close>. The registry \<open>sectionPropsSchemas\<close> is an object literal, so
  \<open>sectionType in sectionPropsSchemas\<close> also holds for the names it inherits from
  \<open>Object.prototype\<close>. For such a name \<open>sectionPropsSchemas[sectionType]\<close> is the
  inherited member, which has no \<open>safeParse\<close>, and the call \<open>schema.safeParse(props)\<close>
  throws a \<open>TypeError\<close>: the result \<open>Inl\<close>. \<open>Inr errors\<close> is the list the function
  returns.
\<close>

datatype thrown = TypeError string

definition validateSectionProps ::
  "'a validator_scheme \<Rightarrow> string \<Rightarrow> json \<Rightarrow> nat \<Rightarrow> thrown + problem list" where
  "validateSectionProps E sectionType props sectionIndex =
     (if \<not> has_property (sectionPropsSchemas E) sectionType then
        Inr [\<lparr>path = ''sections['' @ dec sectionIndex @ ''].type'',
              message = Text (''Unknown section type: \"'' @ sectionType @ ''\"'')\<rparr>]
      else
        (case map_of (sectionPropsSchemas E) sectionType of
           None \<Rightarrow> Inl (TypeError ''schema.safeParse is not a function'')
         | Some schema \<Rightarrow>
             (let result = parse schema (Some props)
              in Inr (map (\<lambda>issue.
                       let propPath = path_text (issue_path issue)
                       in \<lparr>path = ''sections['' @ dec sectionIndex @ ''].props''
                                   @ (if propPath \<noteq> [] then ''.'' @ propPath else []),
                            message = issue_message issue\<rparr>)
                   (fst result)))))"

text \<open>
  Step 2 of \<open>validateSiteConfig\<close>, the loop over \<open>validConfig.sections\<close> from index
  \<open>i\<close> on. Nothing catches what \<open>validateSectionProps\<close> throws.
\<close>

fun section_errors :: "'a validator_scheme \<Rightarrow> nat \<Rightarrow> json list \<Rightarrow> thrown + problem list" where
  "section_errors E i [] = Inr []"
| "section_errors E i (section # rest) =
     (case validateSectionProps E (str_of (output_or_null (get_prop ''type'' section)))
             (output_or_null (get_prop ''props'' section)) i of
        Inl exception \<Rightarrow> Inl exception
      | Inr sectionErrors \<Rightarrow>
          (case section_errors E (Suc i) rest of
             Inl exception \<Rightarrow> Inl exception
           | Inr errs \<Rightarrow> Inr (sectionErrors @ errs)))"

text \<open>
  The loop that looks for duplicate section ids, from index \<open>i\<close> on, with the set
  \<open>sectionIds\<close> of the ids seen so far. The ids are those of the validated
  configuration: \<open>SectionConfigSchema\<close> trims them.
\<close>

definition duplicate_warning :: "nat \<Rightarrow> string \<Rightarrow> problem" where
  "duplicate_warning i ident =
     \<lparr>path = ''sections['' @ dec i @ ''].id'',
      message = Text (''Duplicate section id \"'' @ ident @ ''\"'')\<rparr>"

text \<open>\<open>section.id\<close>, a string once the root schema has accepted the configuration.\<close>

definition section_id :: "json \<Rightarrow> string" where
  "section_id section = str_of (output_or_null (get_prop ''id'' section))"

fun duplicate_ids :: "nat \<Rightarrow> string set \<Rightarrow> json list \<Rightarrow> problem list" where
  "duplicate_ids i sectionIds [] = []"
| "duplicate_ids i sectionIds (section # rest) =
     (if section_id section \<in> sectionIds then [duplicate_warning i (section_id section)] else [])
     @ duplicate_ids (Suc i) (insert (section_id section) sectionIds) rest"

text \<open>The dash in the text of the warning is U+2014, written as its three bytes in UTF-8.\<close>

definition no_seo_warning :: problem where
  "no_seo_warning =
     \<lparr>path = ''seo'',
      message = Text (''No \"seo\" field found '' @ [CHR 0xE2, CHR 0x80, CHR 0x94]
                      @ '' SEO metadata will not be generated'')\<rparr>"

record validation =
  valid :: bool
  errors :: "problem list"
  warnings :: "problem list"

text \<open>
  \<open>validateSiteConfig\<close>: step 1 parses the root; \<open>after_top_level\<close> is the rest of the
  function, given \<open>topLevelResult\<close>. \<open>Inr\<close> is the object it returns, \<open>Inl\<close> what it
  throws.
\<close>

definition after_top_level ::
  "'a validator_scheme \<Rightarrow> issue list \<times> json option \<Rightarrow> thrown + validation" where
  "after_top_level E topLevelResult =
     (if fst topLevelResult \<noteq> [] then
        Inr \<lparr>valid = False,
             errors = map (\<lambda>issue.
                        \<lparr>path = (if path_text (issue_path issue) \<noteq> [] then path_text (issue_path issue)
                                 else ''(root)''),
                         message = issue_message issue\<rparr>)
                      (fst topLevelResult),
             warnings = []\<rparr>
      else
        (let validConfig = output_or_null (snd topLevelResult);
             sections = elements (get_prop ''sections'' validConfig)
         in case section_errors E 0 sections of
              Inl exception \<Rightarrow> Inl exception
            | Inr errs \<Rightarrow>
                (let warnings = (if \<not> js_truthy (get_prop ''seo'' validConfig) then [no_seo_warning] else [])
                                @ duplicate_ids 0 {} sections
                                @ lint E validConfig
                 in Inr \<lparr>valid = (length errs = 0), errors = errs, warnings = warnings\<rparr>)))"

definition validateSiteConfig :: "'a validator_scheme \<Rightarrow> json \<Rightarrow> thrown + validation" where
  "validateSiteConfig E config0 = after_top_level E (parse (SiteConfigSchema E) (Some config0))"

text \<open>
  \<open>topLevelResult.data\<close>, the validated configuration, and the ids of its sections.
\<close>

definition validated :: "'a validator_scheme \<Rightarrow> json \<Rightarrow> json" where
  "validated E config0 = output_or_null (snd (parse (SiteConfigSchema E) (Some config0)))"

definition section_ids :: "json \<Rightarrow> string list" where
  "section_ids validConfig =
     map section_id (elements (get_prop ''sections'' validConfig))"

text \<open>
  The indices at which a list of ids repeats an earlier entry: the occurrences of an id
  after its first.
\<close>

definition repeats :: "string list \<Rightarrow> nat list" where
  "repeats ids = filter (\<lambda>i. ids ! i \<in> set (take i ids)) [0..<length ids]"

text \<open>The entry of \<open>errors\<close> made from an issue of the root schema.\<close>

definition top_level_error :: "issue \<Rightarrow> problem" where
  "top_level_error issue =
     \<lparr>path = (if path_text (issue_path issue) \<noteq> [] then path_text (issue_path issue) else ''(root)''),
      message = issue_message issue\<rparr>"

text \<open>A localized text as the JSON value the configuration holds.\<close>

fun json_of :: "LocalizedText \<Rightarrow> json" where
  "json_of (LText s) = JStr s"
| "json_of (LMap m) = JObj (map (\<lambda>(k, v). (k, JStr v)) m)"

section \<open>Test fixtures\<close>

text \<open>
  A platform for the examples: URLs of two hosts parse, with the path after the host;
  assets go to \<open>assets/\<close> beside the configuration file; every request is answered with
  a 200 whose body is the URL itself.
\<close>

definition two_hosts :: platform where
  "two_hosts =
     \<lparr>url_pathname = (\<lambda>u. if startsWith u ''http://a.example'' then Some (drop 16 u)
                           else if startsWith u ''http://b.example'' then Some (drop 16 u)
                           else None),
      url_protocol = (\<lambda>u. ''http:''),
      decodeURIComponent = Some,
      url_href = (\<lambda>location base. Some location),
      asset_ref = (\<lambda>name. ''assets/'' @ name),
      server = (\<lambda>url. Response 200 None (Finished url)),
      config_path = ''/site/site-config.json'',
      mkdir_error = None,
      write_error = None\<rparr>"

text \<open>The same platform with no network: every request fails.\<close>

definition offline :: platform where
  "offline = two_hosts\<lparr>server := (\<lambda>url. RequestError ''getaddrinfo ENOTFOUND'')\<rparr>"

text \<open>The same platform with a server that sends the first bytes of the body and then nothing.\<close>

definition stalling :: platform where
  "stalling = two_hosts\<lparr>server := (\<lambda>url. Response 200 None (Stalled ''JFIF-first-bytes''))\<rparr>"

text \<open>
  A server that redirects \<open>/0\<close> to \<open>/1\<close> to \<open>/2\<close> to \<open>/3\<close>, where the body is, and that
  redirects every other URL to itself.
\<close>

definition hops :: platform where
  "hops =
     \<lparr>url_pathname = Some,
      url_protocol = (\<lambda>u. takeWhile (\<lambda>c. c \<noteq> CHR ''/'') u),
      decodeURIComponent = Some,
      url_href = (\<lambda>location base. Some location),
      asset_ref = (\<lambda>name. ''assets/'' @ name),
      server = (\<lambda>url.
        if url = ''http://h/0'' then Response 302 (Some ''http://h/1'') (Finished [])
        else if url = ''http://h/1'' then Response 301 (Some ''http://h/2'') (Finished [])
        else if url = ''http://h/2'' then Response 307 (Some ''http://h/3'') (Finished [])
        else if url = ''http://h/3'' then Response 200 None (Finished ''body'')
        else Response 302 (Some url) (Finished [])),
      config_path = ''/site/site-config.json'',
      mkdir_error = None,
      write_error = None\<rparr>"

text \<open>
  A server that redirects the logo to an FTP site. The URL of the redirect parses, with
  the protocol \<open>ftp:\<close>.
\<close>

definition to_ftp :: platform where
  "to_ftp =
     two_hosts
       \<lparr>url_pathname := (\<lambda>u. if startsWith u ''ftp://files.example'' then Some (drop 19 u)
                              else url_pathname two_hosts u),
        url_protocol := (\<lambda>u. takeWhile (\<lambda>c. c \<noteq> CHR ''/'') u),
        server := (\<lambda>url. Response 302 (Some ''ftp://files.example/logo.png'') (Finished []))\<rparr>"

text \<open>
  A server that redirects the logo with the header \<open>Location: http://\<close>, a URL without
  a host, which \<open>new URL\<close> refuses.
\<close>

definition broken_location :: platform where
  "broken_location =
     two_hosts
       \<lparr>url_href := (\<lambda>location base. if location = ''http://'' then None else Some location),
        server := (\<lambda>url. Response 301 (Some ''http://'') (Finished []))\<rparr>"

text \<open>One logo referenced from three places, and a second image.\<close>

definition three_references :: json where
  "three_references =
     JObj [(''navigation'', JObj [(''logo'', JStr ''http://a.example/img/logo.png'')]),
           (''footer'', JObj [(''logo'', JStr ''http://a.example/img/logo.png'')]),
           (''sections'', JArr [
              JObj [(''type'', JStr ''gallery''),
                    (''items'', JArr [JStr ''http://a.example/img/logo.png'',
                                     JStr ''http://b.example/photo.jpg''])]])]"

text \<open>Two different URLs whose last path segment is \<open>image.jpg\<close>.\<close>

definition two_images :: json where
  "two_images =
     JObj [(''hero'', JStr ''http://a.example/image.jpg''),
           (''about'', JStr ''http://b.example/image.jpg'')]"

definition one_logo :: json where
  "one_logo = JObj [(''logo'', JStr ''http://a.example/img/logo.png'')]"

text \<open>What the first run leaves on \<open>three_references\<close> with an empty destination directory.\<close>

definition first_run :: outcome where
  "first_run =
     \<lparr>stats_downloaded = 2, stats_skipped = 0, stats_errors = [],
      written =
        Some (JObj [(''navigation'', JObj [(''logo'', JStr ''assets/logo.png'')]),
                    (''footer'', JObj [(''logo'', JStr ''assets/logo.png'')]),
                    (''sections'', JArr [
                       JObj [(''type'', JStr ''gallery''),
                             (''items'', JArr [JStr ''assets/logo.png'',
                                              JStr ''assets/photo.jpg''])]])]),
      assets = [(''photo.jpg'', ''http://b.example/photo.jpg''),
                (''logo.png'', ''http://a.example/img/logo.png'')],
      printed = [Found 4, Unique 2, Downloading ''http://a.example/img/logo.png'',
                 Saved ''http://a.example/img/logo.png'' ''assets/logo.png'',
                 Downloading ''http://b.example/photo.jpg'',
                 Saved ''http://b.example/photo.jpg'' ''assets/photo.jpg'',
                 ConfigWritten, Done 2 0 0]\<rparr>"

text \<open>
  A validator for the examples: absolute URLs are those with an http or https scheme, an
  e-mail address is a string with an at sign, and step 4 finds nothing.
\<close>

definition plain :: validator where
  "plain =
     \<lparr>url_parses = (\<lambda>val. startsWith val ''http://'' \<or> startsWith val ''https://''),
      is_email = (\<lambda>val. CHR ''@'' \<in> set val),
      lint = (\<lambda>validConfig. [])\<rparr>"

text \<open>A site that is valid but for its sections, which are the argument.\<close>

definition site_with :: "json list \<Rightarrow> json" where
  "site_with sections =
     JObj [
       (''name'', JStr ''Ristorante Camino''),
       (''languages'', JArr [JStr ''en'', JStr ''fr'']),
       (''defaultLanguage'', JStr ''en''),
       (''theme'', JObj [
          (''colors'', JObj [(''primary'', JStr ''20 70% 40%''), (''background'', JStr ''0 0% 100%''),
                            (''foreground'', JStr ''0 0% 10%'')]),
          (''fonts'', JObj [
             (''heading'', JObj [(''family'', JStr ''Playfair Display''), (''weights'', JArr [JNum 700])]),
             (''body'', JObj [(''family'', JStr ''Inter''), (''weights'', JArr [JNum 400])])])]),
       (''navigation'', JObj [(''links'', JArr [])]),
       (''sections'', JArr sections),
       (''footer'', JObj [(''copyright'', JStr ''2024 Camino'')])]"

definition block :: "string \<Rightarrow> string \<Rightarrow> (string \<times> json) list \<Rightarrow> json" where
  "block type_tag ident props =
     JObj [(''type'', JStr type_tag), (''id'', JStr ident), (''props'', JObj props)]"

definition greeting :: json where
  "greeting = JObj [(''en'', JStr ''Welcome''), (''fr'', JStr ''Bienvenue'')]"

text \<open>A hero section whose \<open>stats\<close> list has one entry.\<close>

definition hero_one_stat :: json where
  "hero_one_stat =
     JObj [(''title'', greeting),
           (''stats'', JArr [JObj [(''value'', JStr ''25''), (''label'', JStr ''years'')]])]"

text \<open>
  Two sections: one with a type tag outside the registry, and a hero section that lacks
  its required title.
\<close>

definition with_unknown_type :: json where
  "with_unknown_type = site_with [block ''carousel'' ''slides'' [], block ''hero'' ''top'' []]"

text \<open>Four valid sections; the id \<open>top\<close> occurs three times, once with blanks around it.\<close>

definition with_repeated_ids :: json where
  "with_repeated_ids =
     site_with [block ''hero'' ''top'' [(''title'', greeting)],
                block ''text-block'' ''top'' [(''content'', greeting)],
                block ''text-block'' ''menu'' [(''content'', greeting)],
                block ''text-block'' '' top '' [(''content'', greeting)]]"

definition with_one_stat :: json where
  "with_one_stat =
     site_with [JObj [(''type'', JStr ''hero''), (''id'', JStr ''top''), (''props'', hero_one_stat)]]"

section \<open>The walker and the setters: proofs\<close>

lemma slots_of_simps [simp]:
  "slots_of u [] = []"
  "slots_of u (e # es) = (if fst e = u then snd e # slots_of u es else slots_of u es)"
  "slots_of u (es @ fs) = slots_of u es @ slots_of u fs"
  by (simp_all add: slots_of_def)

lemma slots_of_under [simp]: "slots_of u (under k es) = map ((#) k) (slots_of u es)"
  by (induction es) (auto simp: under_def slots_of_def)

lemma set_all_simps [simp]:
  "set_all [] v tree = tree"
  "set_all (p # ps) v tree = set_all ps v (setAt p (JStr v) tree)"
  "set_all (ps @ qs) v tree = set_all qs v (set_all ps v tree)"
  by (simp_all add: set_all_def)

lemma set_all_under_array:
  "i < length ys \<Longrightarrow>
   set_all (map ((#) (Index i)) ps) v (JArr ys) = JArr (ys[i := set_all ps v (ys ! i)])"
  by (induction ps arbitrary: ys) simp_all

lemma set_all_under_object:
  "set_all (map ((#) (Prop k)) ps) v (JObj kvs) =
   JObj (map (\<lambda>(k', x). if k' = k then (k', set_all ps v x) else (k', x)) kvs)"
proof (induction ps arbitrary: kvs)
  case Nil
  show ?case by (induction kvs) auto
next
  case (Cons p ps)
  show ?case
    by (simp add: Cons.IH o_def split_def)
qed

lemma update_other_keys:
  "k \<notin> fst ` set kvs \<Longrightarrow>
   map (\<lambda>(k', x). if k' = k then (k', g x) else (k', x)) kvs = kvs"
  by (induction kvs) auto

lemma keys_rewrite_object [simp]: "map fst (rewrite_object r kvs) = map fst kvs"
  by (induction kvs) auto

lemma length_rewrite_array [simp]: "length (rewrite_array r xs) = length xs"
  by (induction xs) auto

lemma rewrite_scalar: "\<not> is_object x \<Longrightarrow> rewrite r x = x"
  by (cases x) auto

lemma set_all_rewrite:
  assumes r': "r' u = Some v" "\<And>s. s \<noteq> u \<Longrightarrow> r' s = r s"
  shows "wf_json tree \<Longrightarrow>
     set_all (slots_of u (collectRemoteUrls tree)) v (rewrite r tree) = rewrite r' tree"
  and "wf_array xs \<Longrightarrow> length pre = i \<Longrightarrow>
     set_all (slots_of u (collect_array i xs)) v (JArr (pre @ rewrite_array r xs))
       = JArr (pre @ rewrite_array r' xs)"
  and "wf_object kvs \<Longrightarrow> fst ` set pre' \<inter> fst ` set kvs = {} \<Longrightarrow>
     set_all (slots_of u (collect_object kvs)) v (JObj (pre' @ rewrite_object r kvs))
       = JObj (pre' @ rewrite_object r' kvs)"
proof (induction tree and i xs and kvs arbitrary: and pre and pre'
    rule: collectRemoteUrls_collect_array_collect_object.induct)
  case (1 xs)
  from "1.IH" [of "[]"] "1.prems" show ?case by simp
next
  case (2 kvs)
  from "2.IH" [of "[]"] "2.prems" show ?case by simp
next
  case (8 i val rest)
  let ?R = "rewrite_array r rest" and ?R' = "rewrite_array r' rest"
  from "8.prems" have wf: "wf_json val" "wf_array rest" and len: "length pre = i" by simp_all
  have tail: "set_all (slots_of u (collect_array (Suc i) rest)) v (JArr (pre @ y # ?R))
      = JArr (pre @ y # ?R')" for y
    using "8.IH"(2) [OF wf(2), of "pre @ [y]"] len by simp
  have upd: "(pre @ y # ?R)[i := z] = pre @ z # ?R" "(pre @ y # ?R) ! i = y"
    "i < length (pre @ y # ?R)" for y z
    using len by (auto simp: nth_append list_update_append)
  show ?case
  proof (cases "isRemoteUrl val")
    case True
    then obtain s where s: "val = JStr s" by (cases val) auto
    have "i < Suc (length pre + length rest)" using len by simp
    with s True r' show ?thesis by (cases "s = u") (simp_all add: tail upd)
  next
    case False
    show ?thesis
    proof (cases "is_object val")
      case True
      have "set_all (map ((#) (Index i)) ps) v (JArr (pre @ y # ?R))
          = JArr (pre @ set_all ps v y # ?R)" for ps y
        using set_all_under_array [OF upd(3), of ps v y] by (simp add: upd)
      with True False "8.IH"(1) wf(1) show ?thesis
        by (simp add: tail)
    next
      case False
      with \<open>\<not> isRemoteUrl val\<close> show ?thesis
        by (simp add: tail rewrite_scalar)
    qed
  qed
next
  case (10 k val rest)
  let ?R = "rewrite_object r rest" and ?R' = "rewrite_object r' rest"
  from "10.prems" have wf: "wf_json val" "wf_object rest" and k: "k \<notin> fst ` set rest"
    and pre: "k \<notin> fst ` set pre'" "fst ` set pre' \<inter> fst ` set rest = {}"
    by auto
  have tail: "set_all (slots_of u (collect_object rest)) v (JObj (pre' @ (k, y) # ?R))
      = JObj (pre' @ (k, y) # ?R')" for y
    using "10.IH"(2) [OF wf(2), of "pre' @ [(k, y)]"] k pre by auto
  have kR: "k \<notin> fst ` set ?R"
    using k keys_rewrite_object [of r rest] by (metis set_map)
  note others = update_other_keys [OF pre(1)] update_other_keys [OF kR]
  show ?case
  proof (cases "isRemoteUrl val")
    case True
    then obtain s where s: "val = JStr s" by (cases val) auto
    with True r' show ?thesis by (cases "s = u") (simp_all add: tail others)
  next
    case False
    show ?thesis
    proof (cases "is_object val")
      case True
      with False "10.IH"(1) wf(1) show ?thesis
        by (simp add: set_all_under_object others tail)
    next
      case False
      with \<open>\<not> isRemoteUrl val\<close> show ?thesis
        by (simp add: tail rewrite_scalar)
    qed
  qed
qed simp_all


lemma map_of_append_fresh:
  "k \<notin> fst ` set pre \<Longrightarrow> map_of (pre @ kvs) k = map_of kvs k"
  by (induction pre) auto

lemma slot_after_rewrite:
  "wf_json tree \<Longrightarrow> (u, p) \<in> set (collectRemoteUrls tree) \<Longrightarrow>
     getAt p (rewrite r tree) = Some (JStr (resolved_value r u))"
  "wf_array xs \<Longrightarrow> (u, p) \<in> set (collect_array i xs) \<Longrightarrow> length pre = i \<Longrightarrow>
     getAt p (JArr (pre @ rewrite_array r xs)) = Some (JStr (resolved_value r u))"
  "wf_object kvs \<Longrightarrow> (u, p) \<in> set (collect_object kvs) \<Longrightarrow>
     fst ` set pre' \<inter> fst ` set kvs = {} \<Longrightarrow>
     getAt p (JObj (pre' @ rewrite_object r kvs)) = Some (JStr (resolved_value r u))"
proof (induction tree and i xs and kvs arbitrary: p and p pre and p pre'
    rule: collectRemoteUrls_collect_array_collect_object.induct)
  case (1 xs)
  from "1.IH" [of p "[]"] "1.prems" show ?case by simp
next
  case (2 kvs)
  from "2.IH" [of p "[]"] "2.prems" show ?case by simp
next
  case (8 i val rest)
  from "8.prems" have wf: "wf_json val" "wf_array rest" and len: "length pre = i" by simp_all
  have tail: "(u, p) \<in> set (collect_array (Suc i) rest) \<Longrightarrow>
      getAt p (JArr (pre @ y # rewrite_array r rest)) = Some (JStr (resolved_value r u))" for y
    using "8.IH"(2) [OF wf(2), of p "pre @ [y]"] len by simp
  have nth: "(pre @ y # ys) ! i = y" "i < length (pre @ y # ys)" for y ys
    using len by (auto simp: nth_append)
  show ?case
  proof (cases "isRemoteUrl val")
    case True
    then obtain s where s: "val = JStr s" by (cases val) auto
    from "8.prems"(2) True s
    consider "u = s" "p = [Index i]" | "(u, p) \<in> set (collect_array (Suc i) rest)" by auto
    then show ?thesis
    proof cases
      case 1
      with True s nth show ?thesis
        by (auto simp: resolved_value_def split: option.splits)
    next
      case 2
      then show ?thesis using True by (simp add: tail)
    qed
  next
    case False
    show ?thesis
    proof (cases "is_object val")
      case True
      from "8.prems"(2) True False
      consider q where "p = Index i # q" "(u, q) \<in> set (collectRemoteUrls val)"
        | "(u, p) \<in> set (collect_array (Suc i) rest)" by (auto simp: under_def)
      then show ?thesis
      proof cases
        case 1
        with "8.IH"(1) [OF False True wf(1), of q] False nth show ?thesis by simp
      next
        case 2
        then show ?thesis using False by (simp add: tail)
      qed
    next
      case False
      with \<open>\<not> isRemoteUrl val\<close> "8.prems"(2) show ?thesis by (simp add: tail)
    qed
  qed
next
  case (10 k val rest)
  from "10.prems" have wf: "wf_json val" "wf_object rest" and k: "k \<notin> fst ` set rest"
    and pre: "k \<notin> fst ` set pre'" "fst ` set pre' \<inter> fst ` set rest = {}"
    by auto
  have tail: "(u, p) \<in> set (collect_object rest) \<Longrightarrow>
      getAt p (JObj (pre' @ (k, y) # rewrite_object r rest)) = Some (JStr (resolved_value r u))" for y
    using "10.IH"(2) [OF wf(2), of p "pre' @ [(k, y)]"] k pre by auto
  have look: "map_of (pre' @ (k, y) # ys) k = Some y" for y ys
    using map_of_append_fresh [OF pre(1), of "(k, y) # ys"] by simp
  show ?case
  proof (cases "isRemoteUrl val")
    case True
    then obtain s where s: "val = JStr s" by (cases val) auto
    from "10.prems"(2) True s
    consider "u = s" "p = [Prop k]" | "(u, p) \<in> set (collect_object rest)" by auto
    then show ?thesis
    proof cases
      case 1
      with True s look show ?thesis
        by (auto simp: resolved_value_def split: option.splits)
    next
      case 2
      then show ?thesis using True by (simp add: tail)
    qed
  next
    case False
    show ?thesis
    proof (cases "is_object val")
      case True
      from "10.prems"(2) True False
      consider q where "p = Prop k # q" "(u, q) \<in> set (collectRemoteUrls val)"
        | "(u, p) \<in> set (collect_object rest)" by (auto simp: under_def)
      then show ?thesis
      proof cases
        case 1
        with "10.IH"(1) [OF False True wf(1), of q] False look show ?thesis by simp
      next
        case 2
        then show ?thesis using False by (simp add: tail)
      qed
    next
      case False
      with \<open>\<not> isRemoteUrl val\<close> "10.prems"(2) show ?thesis by (simp add: tail)
    qed
  qed
qed simp_all

lemma collect_rewrite:
  assumes loc: "\<And>u v. r u = Some v \<Longrightarrow> \<not> isRemoteUrl (JStr v)"
  shows "collectRemoteUrls (rewrite r tree) = filter (\<lambda>e. r (fst e) = None) (collectRemoteUrls tree)"
    and "collect_array i (rewrite_array r xs) = filter (\<lambda>e. r (fst e) = None) (collect_array i xs)"
    and "collect_object (rewrite_object r kvs) = filter (\<lambda>e. r (fst e) = None) (collect_object kvs)"
proof (induction tree and i xs and kvs rule: collectRemoteUrls_collect_array_collect_object.induct)
  case (8 i val rest)
  show ?case
  proof (cases "isRemoteUrl val")
    case True
    then obtain s where s: "val = JStr s" by (cases val) auto
    with True "8.IH"(2) loc [of s] show ?thesis
      by (cases "r s") auto
  next
    case False
    show ?thesis
    proof (cases "is_object val")
      case True
      then have "is_object (rewrite r val)" "\<not> isRemoteUrl (rewrite r val)"
        by (cases val; simp)+
      with True False 8 show ?thesis
        by (simp add: under_def filter_map o_def split_def)
    next
      case False
      with \<open>\<not> isRemoteUrl val\<close> "8.IH"(2) show ?thesis
        by (simp add: rewrite_scalar)
    qed
  qed
next
  case (10 k val rest)
  show ?case
  proof (cases "isRemoteUrl val")
    case True
    then obtain s where s: "val = JStr s" by (cases val) auto
    with True "10.IH"(2) loc [of s] show ?thesis
      by (cases "r s") auto
  next
    case False
    show ?thesis
    proof (cases "is_object val")
      case True
      then have "is_object (rewrite r val)" "\<not> isRemoteUrl (rewrite r val)"
        by (cases val; simp)+
      with True False 10 show ?thesis
        by (simp add: under_def filter_map o_def split_def)
    next
      case False
      with \<open>\<not> isRemoteUrl val\<close> "10.IH"(2) show ?thesis
        by (simp add: rewrite_scalar)
    qed
  qed
qed simp_all


lemma rewrite_empty:
  "rewrite Map.empty tree = tree"
  "rewrite_array Map.empty xs = xs"
  "rewrite_object Map.empty kvs = kvs"
  by (induction tree and xs and kvs rule: wf_json_wf_array_wf_object.induct)
    (auto simp: rewrite_scalar)




section \<open>deduplicateByUrl: proofs\<close>

lemma keys_map_push [simp]: "map fst (map_push m url setter) = map fst m"
  by (induction m) (auto simp: map_push_def)

lemma map_of_map_push:
  "map_of (map_push m url setter) u =
     (if u = url then map_option (\<lambda>ps. ps @ [setter]) (map_of m u) else map_of m u)"
  by (induction m) (auto simp: map_push_def)

lemma map_of_snoc_fresh: "url \<notin> fst ` set m \<Longrightarrow> map_of (m @ [(url, x)]) u = (if u = url then Some x else map_of m u)"
  by (induction m) auto

lemma dedup_step_keys:
  "map fst (dedup_step (url, setter) m) = (if url \<in> fst ` set m then map fst m else map fst m @ [url])"
  by (simp add: dedup_step_def map_has_def)

lemma dedup_step_distinct:
  "distinct (map fst m) \<Longrightarrow> distinct (map fst (dedup_step e m))"
  by (cases e) (auto simp: dedup_step_keys)

lemma dedup_step_lookup:
  "map_of (dedup_step (url, setter) m) u =
     (if u = url then Some ((case map_of m u of Some ps \<Rightarrow> ps | None \<Rightarrow> []) @ [setter])
      else map_of m u)"
proof (cases "url \<in> fst ` set m")
  case True
  then have "map_of m url \<noteq> None" by (simp add: map_of_eq_None_iff)
  then obtain ps where "map_of m url = Some ps" by auto
  with True show ?thesis
    by (auto simp: dedup_step_def map_has_def map_of_map_push)
next
  case False
  then have "map_of m url = None"
    by (simp add: map_of_eq_None_iff)
  with False show ?thesis
    by (auto simp: dedup_step_def map_has_def map_of_map_push map_of_snoc_fresh simp del: map_of_append)
qed

lemma fold_dedup:
  "distinct (map fst m) \<Longrightarrow>
   distinct (map fst (fold dedup_step es m))
   \<and> set (map fst (fold dedup_step es m)) = fst ` set m \<union> fst ` set es
   \<and> (\<forall>u. map_of (fold dedup_step es m) u =
         (if u \<in> fst ` set m \<union> fst ` set es
          then Some ((case map_of m u of Some ps \<Rightarrow> ps | None \<Rightarrow> []) @ slots_of u es)
          else None))"
proof (induction es arbitrary: m)
  case Nil
  show ?case
  proof (intro conjI allI)
    fix u
    show "map_of (fold dedup_step [] m) u =
      (if u \<in> fst ` set m \<union> fst ` set []
       then Some ((case map_of m u of Some ps \<Rightarrow> ps | None \<Rightarrow> []) @ slots_of u []) else None)"
      by (cases "map_of m u") (auto simp: map_of_eq_None_iff dest: map_of_SomeD intro: rev_image_eqI)
  qed (use Nil in simp_all)
next
  case (Cons e es)
  obtain url setter where e: "e = (url, setter)" by (cases e)
  let ?m = "dedup_step e m"
  have d: "distinct (map fst ?m)" using Cons.prems by (rule dedup_step_distinct)
  have "set (map fst ?m) = insert url (fst ` set m)"
    unfolding e dedup_step_keys by auto
  then have keys: "fst ` set ?m = insert url (fst ` set m)" by simp
  note IH = Cons.IH [OF d]
  show ?case
  proof (intro conjI allI)
    show "distinct (map fst (fold dedup_step (e # es) m))" using IH by simp
    show "set (map fst (fold dedup_step (e # es) m)) = fst ` set m \<union> fst ` set (e # es)"
      using IH keys e by auto
    fix u
    show "map_of (fold dedup_step (e # es) m) u =
      (if u \<in> fst ` set m \<union> fst ` set (e # es)
       then Some ((case map_of m u of Some ps \<Rightarrow> ps | None \<Rightarrow> []) @ slots_of u (e # es)) else None)"
      using IH keys e by (auto simp: dedup_step_lookup)
  qed
qed


lemma deduplicateByUrl_fold: "deduplicateByUrl es = fold dedup_step es []"
  by (simp add: deduplicateByUrl_def)

lemma deduplicateByUrl_distinct: "distinct (map fst (deduplicateByUrl es))"
  using fold_dedup [of "[]" es] by (simp add: deduplicateByUrl_fold)

lemma deduplicateByUrl_keys: "fst ` set (deduplicateByUrl es) = fst ` set es"
  using fold_dedup [of "[]" es] by (simp add: deduplicateByUrl_fold)

lemma deduplicateByUrl_setters:
  assumes "(u, ps) \<in> set (deduplicateByUrl es)"
  shows "ps = slots_of u es"
proof -
  have "map_of (deduplicateByUrl es) u = Some ps"
    using assms deduplicateByUrl_distinct by simp
  moreover have "u \<in> fst ` set es"
    using assms deduplicateByUrl_keys [of es] by force
  ultimately show ?thesis
    using fold_dedup [of "[]" es] by (simp add: deduplicateByUrl_fold)
qed


lemma groups_are_slots:
  "\<forall>g \<in> set (deduplicateByUrl es). snd g = slots_of (fst g) es"
  using deduplicateByUrl_setters by auto

section \<open>File names and downloadFile: proofs\<close>



lemma in_callback_settled [simp]: "in_callback (Inr e, dir) = (Inr e, dir)"
  by (simp add: in_callback_def)

lemma in_callback_thrown [simp]: "in_callback (Inl reason, dir) = (Inr (Uncaught reason), dir)"
  by (simp add: in_callback_def)

lemma redirect_followed:
  assumes "redirect_of P url = Some next_url" and "0 < k"
  shows "doRequest P original destPath dir url k
    = in_callback (doRequest P original destPath dir next_url (k - 1))"
  using assms
  by (subst doRequest.simps) (auto simp: redirect_of_def split: if_splits reply.splits option.splits)

lemma redirect_refused:
  assumes "redirect_of P url = Some next_url" and "k \<le> 0"
  shows "doRequest P original destPath dir url k
    = (Inr (Rejected (''Too many redirects (>'' @ dec (nat MAX_REDIRECTS) @ '') for URL: '' @ original)), dir)"
  using assms
  by (subst doRequest.simps) (auto simp: redirect_of_def split: if_splits reply.splits option.splits)

lemma final_response_saved:
  assumes "serves P url content"
  shows "doRequest P original destPath dir url k = (Inr Resolved, writeFile dir destPath content)"
  using assms
  by (subst doRequest.simps) (auto simp: serves_def split: reply.splits)

lemma chain_followed:
  "after_redirects P url n = Some final \<Longrightarrow> int n \<le> k \<Longrightarrow>
   doRequest P original destPath dir final (k - int n) = (Inr e, dir') \<Longrightarrow>
   doRequest P original destPath dir url k = (Inr e, dir')"
proof (induction n arbitrary: url k)
  case 0
  then show ?case by simp
next
  case (Suc n)
  from Suc.prems(1) obtain next_url where
    hop: "redirect_of P url = Some next_url" and rest: "after_redirects P next_url n = Some final"
    by (auto split: option.splits)
  from Suc.prems(2) have k: "0 < k" "int n \<le> k - 1" by simp_all
  from Suc.prems(3) have "doRequest P original destPath dir final (k - 1 - int n) = (Inr e, dir')"
    by (simp add: algebra_simps)
  from Suc.IH [OF rest k(2) this] redirect_followed [OF hop k(1)] show ?case
    by simp
qed

lemma after_redirects_last:
  "after_redirects P url (Suc n) = Some final \<Longrightarrow>
   \<exists>mid. after_redirects P url n = Some mid \<and> redirect_of P mid = Some final"
proof (induction n arbitrary: url)
  case 0
  then show ?case by (auto split: option.splits)
next
  case (Suc n)
  from Suc.prems obtain next_url where
    hop: "redirect_of P url = Some next_url"
    and rest: "after_redirects P next_url (Suc n) = Some final"
    by (auto split: option.splits)
  from Suc.IH [OF rest] hop show ?case by auto
qed

lemma limit_text: "dec (nat MAX_REDIRECTS) = ''5''"
  by code_simp

text \<open>
  A redirect whose \<open>Location\<close> does not resolve, or resolves to a URL with a protocol
  other than \<open>http:\<close> and \<open>https:\<close>, ends the process.
\<close>

lemma unresolvable_location_is_uncaught:
  assumes "url_pathname P url \<noteq> None" and "refused_protocol P url = None"
    and "server P url = Response statusCode (Some location) body"
    and "300 \<le> statusCode" "statusCode < 400" "location \<noteq> []"
    and "url_href P location url = None"
  shows "downloadFile P url destPath dir = (Uncaught ''Invalid URL'', dir)"
  using assms unfolding downloadFile_def
  by (subst doRequest.simps) (auto simp: MAX_REDIRECTS_def)

lemma refused_redirect_is_uncaught:
  assumes "url_pathname P url \<noteq> None" and "refused_protocol P url = None"
    and "server P url = Response statusCode (Some location) body"
    and "300 \<le> statusCode" "statusCode < 400" "location \<noteq> []"
    and "url_href P location url = Some redirectUrl"
    and "url_pathname P redirectUrl \<noteq> None" and "refused_protocol P redirectUrl = Some reason"
  shows "downloadFile P url destPath dir = (Uncaught reason, dir)"
proof -
  have "doRequest P url destPath dir redirectUrl (MAX_REDIRECTS - 1) = (Inl reason, dir)"
    using assms(8,9) by (subst doRequest.simps) auto
  then have "doRequest P url destPath dir url MAX_REDIRECTS = (Inr (Uncaught reason), dir)"
    using assms(1-7) by (subst doRequest.simps) (auto simp: MAX_REDIRECTS_def)
  then show ?thesis by (simp add: downloadFile_def)
qed

text \<open>Where redirects resolve, no call of \<open>downloadFile\<close> ends the process: its promise is settled.\<close>

lemma doRequest_settles:
  "redirects_resolve P \<Longrightarrow> url_pathname P url \<noteq> None \<longrightarrow> refused_protocol P url = None \<Longrightarrow>
    \<exists>e dir'. doRequest P original destPath dir url k = (Inr e, dir') \<and> (\<forall>reason. e \<noteq> Uncaught reason)"
proof (induction P original destPath dir url k rule: doRequest.induct)
  case (1 P original destPath dir url k)
  show ?case
  proof (cases "url_pathname P url = None")
    case True
    then show ?thesis by (subst doRequest.simps) simp
  next
    case False
    with "1.prems" have ok: "refused_protocol P url = None" by simp
    show ?thesis
    proof (cases "server P url")
      case (RequestError reason)
      with False ok show ?thesis by (subst doRequest.simps) simp
    next
      case NoResponse
      with False ok show ?thesis by (subst doRequest.simps) simp
    next
      case (Response statusCode location body)
      show ?thesis
      proof (cases "300 \<le> statusCode \<and> statusCode < 400 \<and> truthy location \<and> \<not> k \<le> 0")
        case True
        from "1.prems"(1) [unfolded redirects_resolve_def, rule_format, of "the location" url]
        obtain redirectUrl where
          href: "url_href P (the location) url = Some redirectUrl"
          and next_ok: "url_pathname P redirectUrl \<noteq> None \<longrightarrow> refused_protocol P redirectUrl = None"
          by blast
        from True have 3: "300 \<le> statusCode \<and> statusCode < 400 \<and> truthy location" and k: "\<not> k \<le> 0"
          by simp_all
        from "1.IH" [OF False ok Response 3 k href "1.prems"(1) next_ok]
        obtain e dir' where
          "doRequest P original destPath dir redirectUrl (k - 1) = (Inr e, dir')"
          "\<forall>reason. e \<noteq> Uncaught reason"
          by blast
        with False ok Response True href show ?thesis
          by (subst doRequest.simps) simp
      next
        case no_hop: False
        with False ok Response show ?thesis
          by (subst doRequest.simps) (auto split: transfer.splits)
      qed
    qed
  qed
qed

lemma downloadFile_settles:
  assumes "redirects_resolve P"
  shows "\<forall>reason. fst (downloadFile P url destPath dir) \<noteq> Uncaught reason"
proof (cases "url_pathname P url \<noteq> None \<longrightarrow> refused_protocol P url = None")
  case True
  from doRequest_settles [OF assms True, of url destPath dir MAX_REDIRECTS]
  show ?thesis by (auto simp: downloadFile_def)
next
  case False
  then obtain reason where "url_pathname P url \<noteq> None" "refused_protocol P url = Some reason"
    by auto
  then have "doRequest P url destPath dir url MAX_REDIRECTS = (Inl reason, dir)"
    by (subst doRequest.simps) auto
  then show ?thesis by (simp add: downloadFile_def)
qed


lemma snd_in_callback [simp]: "snd (in_callback r) = snd r"
  by (cases r; cases "fst r") (auto simp: in_callback_def)

lemma fst_in_callback_Resolved [simp]: "fst (in_callback r) = Inr Resolved \<longleftrightarrow> fst r = Inr Resolved"
  by (cases r; cases "fst r") (auto simp: in_callback_def)







lemma write_stream_error_cleans_up:
  assumes "url_pathname P url \<noteq> None" and "refused_protocol P url = None"
    and "server P url = Response statusCode location (WriteStreamError partial reason)"
    and "200 \<le> statusCode" "statusCode < 300"
  shows "downloadFile P url destPath dir = (Rejected reason, unlink dir destPath)
    \<and> \<not> existsSync (unlink dir destPath) destPath"
  using assms unfolding downloadFile_def
  by (subst doRequest.simps) (auto simp: unlink_def writeFile_def existsSync_def)

lemma stalled_transfer_leaves_partial_file:
  assumes "url_pathname P url \<noteq> None" and "refused_protocol P url = None"
    and "server P url = Response statusCode location (Stalled partial)"
    and "200 \<le> statusCode" "statusCode < 300"
  shows "downloadFile P url destPath dir
      = (Rejected (''Timeout downloading '' @ url), writeFile dir destPath partial)
    \<and> map_of (writeFile dir destPath partial) destPath = Some partial"
  using assms unfolding downloadFile_def
  by (subst doRequest.simps) (auto simp: writeFile_def)

section \<open>The loop of downloadAssets: proofs\<close>

lemma resolution_snoc [simp]:
  "resolution (evs @ [e]) = record_event (resolution evs) e"
  by (simp add: resolution_def)

lemma resolution_snoc2 [simp]:
  "resolution (evs @ [e, e']) = record_event (record_event (resolution evs) e) e'"
  by (simp add: resolution_def)

lemma fetches_append [simp]: "fetches (xs @ ys) u = fetches xs u + fetches ys u"
  by (induction xs) (auto simp: fetches_def)

lemma cache_hits_append [simp]: "cache_hits (xs @ ys) u = cache_hits xs u + cache_hits ys u"
  by (simp add: cache_hits_def)

lemma fetches_one [simp]:
  "fetches [Downloading url, e] u = (if u = url then 1 else 0) + (if e = Downloading u then 1 else 0)"
  by (auto simp: fetches_def)

lemma fetches_skip [simp]: "fetches [Skip url ref] u = 0"
  by (simp add: fetches_def)

lemma cache_hits_skip [simp]: "cache_hits [Skip url ref] u = (if u = url then 1 else 0)"
  by (simp add: cache_hits_def)

lemma cache_hits_download [simp]:
  "cache_hits [Downloading url, Saved url ref] u = 0" "cache_hits [Downloading url, Error reason] u = 0"
  by (simp_all add: cache_hits_def)

text \<open>The four ways one turn of the loop can end.\<close>

lemma resolve_url_cases:
  obtains
    (cached) s' where
      "resolve_url P (url, setters) s = Inr s'"
      "existsSync (files s) (localFilenameFromUrl P url)"
      "config s' = set_all setters (asset_ref P (localFilenameFromUrl P url)) (config s)"
      "console s' = console s @ [Skip url (asset_ref P (localFilenameFromUrl P url))]"
      "run_errors s' = run_errors s"
      "files s' = files s"
      "downloaded s' = downloaded s"
      "skipped s' = skipped s + 1"
  | (saved) s' name where
      "resolve_url P (url, setters) s = Inr s'"
      "\<not> existsSync (files s) (localFilenameFromUrl P url)"
      "name = uniqueFilename (files s) (localFilenameFromUrl P url) (reservedFilenames s)"
      "fst (downloadFile P url name (files s)) = Resolved"
      "config s' = set_all setters (asset_ref P name) (config s)"
      "console s' = console s @ [Downloading url, Saved url (asset_ref P name)]"
      "run_errors s' = run_errors s"
      "files s' = snd (downloadFile P url name (files s))"
      "downloaded s' = downloaded s + 1"
      "skipped s' = skipped s"
  | (failed) s' name reason where
      "resolve_url P (url, setters) s = Inr s'"
      "\<not> existsSync (files s) (localFilenameFromUrl P url)"
      "name = uniqueFilename (files s) (localFilenameFromUrl P url) (reservedFilenames s)"
      "fst (downloadFile P url name (files s)) = Rejected reason"
      "config s' = config s"
      "console s' = console s @ [Downloading url, Error (''Failed to download '' @ url @ '': '' @ reason)]"
      "run_errors s' = run_errors s @ [''Failed to download '' @ url @ '': '' @ reason]"
      "files s' = snd (downloadFile P url name (files s))"
      "downloaded s' = downloaded s"
      "skipped s' = skipped s"
  | (died) name reason where
      "resolve_url P (url, setters) s = Inl reason"
      "\<not> existsSync (files s) (localFilenameFromUrl P url)"
      "name = uniqueFilename (files s) (localFilenameFromUrl P url) (reservedFilenames s)"
      "fst (downloadFile P url name (files s)) = Uncaught reason"
proof (cases "existsSync (files s) (localFilenameFromUrl P url)")
  case True
  then obtain s' where r: "resolve_url P (url, setters) s = Inr s'"
    by (simp add: resolve_url_def Let_def)
  with True show ?thesis
    by (intro cached [of s']) (auto simp: resolve_url_def Let_def)
next
  case False
  let ?name = "uniqueFilename (files s) (localFilenameFromUrl P url) (reservedFilenames s)"
  obtain res files' where dl: "downloadFile P url ?name (files s) = (res, files')"
    by (cases "downloadFile P url ?name (files s)")
  show ?thesis
  proof (cases res)
    case Resolved
    with False dl obtain s' where r: "resolve_url P (url, setters) s = Inr s'"
      by (simp add: resolve_url_def Let_def)
    with Resolved False dl show ?thesis
      by (intro saved [of s' ?name]) (auto simp: resolve_url_def Let_def)
  next
    case (Rejected reason)
    with False dl obtain s' where r: "resolve_url P (url, setters) s = Inr s'"
      by (simp add: resolve_url_def Let_def)
    with Rejected False dl show ?thesis
      by (intro failed [of s' ?name reason]) (auto simp: resolve_url_def Let_def)
  next
    case (Uncaught reason)
    with False dl show ?thesis
      by (intro died [of reason ?name]) (simp_all add: resolve_url_def Let_def)
  qed
qed

text \<open>Induction over a loop that reaches its end.\<close>

lemma loop_induct [consumes 1, case_names finished turn]:
  assumes "for_each_url P gs s = Inr sf"
    and "\<And>s. Q [] s s"
    and "\<And>url setters gs s s'. resolve_url P (url, setters) s = Inr s' \<Longrightarrow>
          for_each_url P gs s' = Inr sf \<Longrightarrow> Q gs s' sf \<Longrightarrow> Q ((url, setters) # gs) s sf"
  shows "Q gs s sf"
  using assms(1)
proof (induction gs arbitrary: s)
  case Nil
  then show ?case using assms(2) by simp
next
  case (Cons g gs)
  obtain url setters where g: "g = (url, setters)" by (cases g)
  from Cons.prems obtain s' where
    step: "resolve_url P (url, setters) s = Inr s'" and rest: "for_each_url P gs s' = Inr sf"
    unfolding g by (auto split: sum.splits)
  from assms(3) [OF step rest Cons.IH [OF rest]] show ?case by (simp add: g)
qed



lemma step_config:
  assumes "wf_json c0" and "setters = slots_of url (collectRemoteUrls c0)"
    and "config s = rewrite (resolution (console s)) c0"
    and "resolve_url P (url, setters) s = Inr s'"
  shows "config s' = rewrite (resolution (console s')) c0"
proof (cases rule: resolve_url_cases [of P url setters s])
  case (cached s'')
  with assms(4) have "s'' = s'" by simp
  with cached show ?thesis
    using set_all_rewrite(1) [OF _ _ assms(1),
        of "(resolution (console s))(url \<mapsto> asset_ref P (localFilenameFromUrl P url))" url
           "asset_ref P (localFilenameFromUrl P url)" "resolution (console s)"]
      assms(2,3) by simp
next
  case (saved s'' name)
  with assms(4) have "s'' = s'" by simp
  with saved show ?thesis
    using set_all_rewrite(1) [OF _ _ assms(1),
        of "(resolution (console s))(url \<mapsto> asset_ref P name)" url "asset_ref P name" "resolution (console s)"]
      assms(2,3) by simp
next
  case (failed s'' name reason)
  with assms(4) have "s'' = s'" by simp
  with failed show ?thesis using assms(3) by simp
next
  case (died name reason)
  with assms(4) show ?thesis by simp
qed

lemma loop_config:
  assumes "wf_json c0" and "for_each_url P gs s = Inr sf"
  shows "\<forall>g \<in> set gs. snd g = slots_of (fst g) (collectRemoteUrls c0) \<Longrightarrow>
    config s = rewrite (resolution (console s)) c0 \<Longrightarrow>
    config sf = rewrite (resolution (console sf)) c0"
  using assms(2)
proof (induction rule: loop_induct)
  case (finished s)
  then show ?case by simp
next
  case (turn url setters gs s s')
  from turn.prems(1) have "setters = slots_of url (collectRemoteUrls c0)" by simp
  from step_config [OF assms(1) this turn.prems(2) turn.hyps(1)] turn.IH turn.prems(1)
  show ?case by simp
qed

lemma step_refs:
  assumes "\<forall>u v. resolution (console s) u = Some v \<longrightarrow> v \<in> range (asset_ref P)"
    and "resolve_url P (url, setters) s = Inr s'"
  shows "\<forall>u v. resolution (console s') u = Some v \<longrightarrow> v \<in> range (asset_ref P)"
  by (cases rule: resolve_url_cases [of P url setters s]) (use assms in \<open>auto split: if_splits\<close>)

lemma loop_refs:
  assumes "for_each_url P gs s = Inr sf"
  shows "\<forall>u v. resolution (console s) u = Some v \<longrightarrow> v \<in> range (asset_ref P) \<Longrightarrow>
   \<forall>u v. resolution (console sf) u = Some v \<longrightarrow> v \<in> range (asset_ref P)"
  using assms
proof (induction rule: loop_induct)
  case (finished s)
  then show ?case by simp
next
  case (turn url setters gs s s')
  from turn.IH [OF step_refs [OF turn.prems turn.hyps(1)]] show ?case .
qed







lemma step_errors:
  assumes "resolve_url P (url, setters) s = Inr s'" and "run_errors s' = []"
  shows "run_errors s = [] \<and> resolution (console s') url \<noteq> None"
  by (cases rule: resolve_url_cases [of P url setters s]) (use assms in auto)

lemma step_dom:
  assumes "resolve_url P (url, setters) s = Inr s'"
  shows "resolution (console s) u \<noteq> None \<Longrightarrow> resolution (console s') u \<noteq> None"
  by (cases rule: resolve_url_cases [of P url setters s]) (use assms in auto)

lemma loop_dom:
  assumes "for_each_url P gs s = Inr sf"
  shows "resolution (console s) u \<noteq> None \<Longrightarrow> resolution (console sf) u \<noteq> None"
  using assms
proof (induction rule: loop_induct)
  case (finished s)
  then show ?case by simp
next
  case (turn url setters gs s s')
  from turn.IH [OF step_dom [OF turn.hyps(1) turn.prems]] show ?case .
qed

lemma loop_errors:
  assumes "for_each_url P gs s = Inr sf"
  shows "run_errors sf = [] \<Longrightarrow>
   run_errors s = [] \<and> (\<forall>u \<in> fst ` set gs. resolution (console sf) u \<noteq> None)"
  using assms
proof (induction rule: loop_induct)
  case (finished s)
  then show ?case by simp
next
  case (turn url setters gs s s')
  from turn.IH [OF turn.prems] have e: "run_errors s' = []"
    and rest: "\<forall>u \<in> fst ` set gs. resolution (console sf) u \<noteq> None"
    by simp_all
  from step_errors [OF turn.hyps(1) e] loop_dom [OF turn.hyps(2), of url] rest
  show ?case by simp
qed

lemma step_successes:
  assumes "resolve_url P (url, setters) s = Inr s'"
  shows "downloaded s + skipped s \<le> downloaded s' + skipped s'
   \<and> (downloaded s' + skipped s' = downloaded s + skipped s
      \<longrightarrow> resolution (console s') = resolution (console s))"
  by (cases rule: resolve_url_cases [of P url setters s]) (use assms in auto)

lemma loop_successes:
  assumes "for_each_url P gs s = Inr sf"
  shows "downloaded s + skipped s \<le> downloaded sf + skipped sf
   \<and> (downloaded sf + skipped sf = downloaded s + skipped s
      \<longrightarrow> resolution (console sf) = resolution (console s))"
  using assms
proof (induction rule: loop_induct)
  case (finished s)
  then show ?case by simp
next
  case (turn url setters gs s s')
  from step_successes [OF turn.hyps(1)]
  have a: "downloaded s + skipped s \<le> downloaded s' + skipped s'"
    and a': "downloaded s' + skipped s' = downloaded s + skipped s
      \<Longrightarrow> resolution (console s') = resolution (console s)"
    by simp_all
  from turn.IH
  have b: "downloaded s' + skipped s' \<le> downloaded sf + skipped sf"
    and b': "downloaded sf + skipped sf = downloaded s' + skipped s'
      \<Longrightarrow> resolution (console sf) = resolution (console s')"
    by simp_all
  have "resolution (console sf) = resolution (console s)"
    if "downloaded sf + skipped sf = downloaded s + skipped s"
  proof -
    from that a b have "downloaded s' + skipped s' = downloaded s + skipped s" by linarith
    with that a' b' show ?thesis by simp
  qed
  with a b show ?case by simp
qed

text \<open>Where redirects resolve, the loop reaches its end.\<close>

lemma resolve_url_returns:
  assumes "redirects_resolve P"
  shows "\<exists>s'. resolve_url P (url, setters) s = Inr s'"
proof (cases rule: resolve_url_cases [of P url setters s])
  case (died name reason)
  with downloadFile_settles [OF assms, of url name "files s"] show ?thesis by simp
qed blast+

lemma for_each_url_returns:
  assumes "redirects_resolve P"
  shows "\<exists>sf. for_each_url P gs s = Inr sf"
proof (induction gs arbitrary: s)
  case Nil
  show ?case by simp
next
  case (Cons g gs)
  obtain url setters where g: "g = (url, setters)" by (cases g)
  from resolve_url_returns [OF assms, of url setters s] obtain s' where
    "resolve_url P (url, setters) s = Inr s'" by blast
  with Cons.IH [of s'] g show ?case by simp
qed


lemma downloadAssets_nothing:
  "collectRemoteUrls c0 = [] \<Longrightarrow>
   downloadAssets P (Holds c0) dir =
     Inr \<lparr>stats_downloaded = 0, stats_skipped = 0, stats_errors = [],
          written = None, assets = dir, printed = [NothingToDo]\<rparr>"
  by (simp add: downloadAssets_def)

lemma downloadAssets_died:
  assumes "collectRemoteUrls c0 \<noteq> []" and "mkdir_error P = None" and "loop_end P c0 dir = Inl reason"
  shows "downloadAssets P (Holds c0) dir = Inl (Dies reason)"
  using assms by (simp add: downloadAssets_def)

lemma downloadAssets_some:
  assumes "collectRemoteUrls c0 \<noteq> []" and "mkdir_error P = None" and "loop_end P c0 dir = Inr sf"
  shows "\<exists>out. downloadAssets P (Holds c0) dir = Inr out
    \<and> written out = Some (config sf)
    \<and> assets out = files sf
    \<and> stats_downloaded out = downloaded sf
    \<and> stats_skipped out = skipped sf
    \<and> (write_error P = None \<longrightarrow> stats_errors out = run_errors sf)
    \<and> (write_error P \<noteq> None \<longrightarrow> stats_errors out \<noteq> [])
    \<and> set (run_errors sf) \<subseteq> set (stats_errors out)
    \<and> resolution (printed out) = resolution (console sf)
    \<and> fetches (printed out) = fetches (console sf)
    \<and> cache_hits (printed out) = cache_hits (console sf)"
proof (cases "write_error P")
  case None
  with assms show ?thesis
    by (simp add: downloadAssets_def Let_def fun_eq_iff fetches_def cache_hits_def)
next
  case (Some reason)
  with assms show ?thesis
    by (auto simp: downloadAssets_def Let_def fun_eq_iff fetches_def cache_hits_def)
qed

text \<open>A call that returns with references in the tree has run the loop to its end.\<close>

lemma downloadAssets_returned:
  assumes "collectRemoteUrls c0 \<noteq> []" and "downloadAssets P (Holds c0) dir = Inr out"
  obtains sf where "mkdir_error P = None" "loop_end P c0 dir = Inr sf"
  using assms by (cases "loop_end P c0 dir"; cases "mkdir_error P") (auto simp: downloadAssets_def)

text \<open>
  Where the destination directory can be made and redirects resolve, \<open>downloadAssets\<close>
  returns.
\<close>

lemma downloadAssets_returns:
  assumes "redirects_resolve P" and "mkdir_error P = None"
  shows "\<exists>out. downloadAssets P (Holds c0) dir = Inr out"
proof (cases "collectRemoteUrls c0 = []")
  case True
  then show ?thesis by (simp add: downloadAssets_nothing)
next
  case False
  from for_each_url_returns [OF assms(1)] obtain sf where "loop_end P c0 dir = Inr sf"
    unfolding loop_end_def by blast
  from downloadAssets_some [OF False assms(2) this] show ?thesis by blast
qed

lemma resolution_start [simp]: "resolution (console (loop_start c0 dir)) = Map.empty"
  by (simp add: loop_start_def resolution_def)

lemma counts_start [simp]:
  "fetches (console (loop_start c0 dir)) u = 0" "cache_hits (console (loop_start c0 dir)) u = 0"
  by (simp_all add: loop_start_def fetches_def cache_hits_def)

lemma loop_end_config:
  assumes "wf_json c0" and "loop_end P c0 dir = Inr sf"
  shows "config sf = rewrite (resolution (console sf)) c0"
  by (rule loop_config [OF assms(1) assms(2) [unfolded loop_end_def] groups_are_slots])
    (simp add: loop_start_def rewrite_empty resolution_def)



section \<open>The asset downloader: the claims\<close>




text \<open>
  C2. When a first run has succeeded (its error list is empty), a second run against the
  configuration file and the destination directory that the first run left performs no
  network fetch, whatever the network would answer, and does not touch the configuration
  file: it finds no remote URL, prints that there is nothing to do and returns. Local
  paths are taken not to start with \<open>http://\<close> or \<open>https://\<close>.
\<close>

theorem second_run_does_nothing:
  assumes "wf_json c0"
    and "\<And>f. \<not> isRemoteUrl (JStr (asset_ref P f))"
    and "downloadAssets P (Holds c0) dir = Inr out"
    and "stats_errors out = []"
  shows "downloadAssets P' (file_after P (Holds c0) out) (assets out) =
     Inr \<lparr>stats_downloaded = 0, stats_skipped = 0, stats_errors = [],
          written = None, assets = assets out, printed = [NothingToDo]\<rparr>"
proof (cases "collectRemoteUrls c0 = []")
  case True
  with assms(3) have "written out = None" "assets out = dir"
    by (auto simp: downloadAssets_nothing)
  with True show ?thesis
    by (simp add: file_after_def downloadAssets_nothing)
next
  case False
  from downloadAssets_returned [OF False assms(3)] obtain s where
    mk: "mkdir_error P = None" and s: "loop_end P c0 dir = Inr s" .
  note loop = s [unfolded loop_end_def]
  from downloadAssets_some [OF False mk s] assms(3) have
    w: "written out = Some (config s)"
    and e: "write_error P = None \<longrightarrow> stats_errors out = run_errors s"
    and e': "write_error P \<noteq> None \<longrightarrow> stats_errors out \<noteq> []"
    by auto
  from e' assms(4) have we: "write_error P = None" by blast
  with e assms(4) have "run_errors s = []" by simp
  then have "\<forall>u \<in> fst ` set (deduplicateByUrl (collectRemoteUrls c0)).
      resolution (console s) u \<noteq> None"
    by (rule loop_errors [OF loop, THEN conjunct2])
  then have all: "\<forall>u \<in> fst ` set (collectRemoteUrls c0). resolution (console s) u \<noteq> None"
    unfolding deduplicateByUrl_keys .
  have "\<forall>u v. resolution (console s) u = Some v \<longrightarrow> v \<in> range (asset_ref P)"
    by (rule loop_refs [OF loop]) simp
  then have loc: "\<not> isRemoteUrl (JStr v)" if "resolution (console s) u = Some v" for u v
    using that assms(2) by blast
  have "collectRemoteUrls (config s)
      = filter (\<lambda>e. resolution (console s) (fst e) = None) (collectRemoteUrls c0)"
    unfolding loop_end_config [OF assms(1) s]
    by (rule collect_rewrite(1)) (rule loc)
  also have "\<dots> = []" using all by (auto simp: filter_empty_conv)
  finally show ?thesis
    using w we by (simp add: file_after_def downloadAssets_nothing)
qed

theorem second_run_does_nothing_witness:
  "wf_json three_references
   \<and> (\<forall>f. \<not> isRemoteUrl (JStr (asset_ref two_hosts f)))
   \<and> downloadAssets two_hosts (Holds three_references) [] = Inr first_run
   \<and> stats_errors first_run = []
   \<and> downloadAssets offline (file_after two_hosts (Holds three_references) first_run) (assets first_run)
       = Inr \<lparr>stats_downloaded = 0, stats_skipped = 0, stats_errors = [],
              written = None, assets = assets first_run, printed = [NothingToDo]\<rparr>"
proof -
  have wf: "wf_json three_references" by code_simp
  have loc: "\<not> isRemoteUrl (JStr (asset_ref two_hosts f))" for f
    by (simp add: two_hosts_def startsWith_def)
  have run: "downloadAssets two_hosts (Holds three_references) [] = Inr first_run" by code_simp
  have ok: "stats_errors first_run = []" by (simp add: first_run_def)
  from wf loc run ok second_run_does_nothing [OF wf loc run ok, of offline] show ?thesis by blast
qed

text \<open>
  C3 fails on the code. Two different URLs end in \<open>image.jpg\<close>. The first is downloaded
  to \<open>image.jpg\<close>. For the second, \<open>uniqueFilename\<close> does choose \<open>image_2.jpg\<close>, but the
  cache check that follows looks for the raw name \<open>image.jpg\<close>, finds the file the first
  URL has just left, and skips the download: one file on disk, and both references
  rewritten to \<open>assets/image.jpg\<close>.
\<close>

theorem colliding_names_share_one_file:
  "downloadAssets two_hosts (Holds two_images) []
     = Inr \<lparr>stats_downloaded = 1, stats_skipped = 1, stats_errors = [],
            written = Some (JObj [(''hero'', JStr ''assets/image.jpg''),
                                  (''about'', JStr ''assets/image.jpg'')]),
            assets = [(''image.jpg'', ''http://a.example/image.jpg'')],
            printed = [Found 2, Unique 2, Downloading ''http://a.example/image.jpg'',
                       Saved ''http://a.example/image.jpg'' ''assets/image.jpg'',
                       Skip ''http://b.example/image.jpg'' ''assets/image.jpg'',
                       ConfigWritten, Done 1 1 0]\<rparr>"
  by code_simp

text \<open>
  C4. \<open>downloadFile\<close> follows a redirect to the Location header resolved against the
  current URL. When the chain of redirects from the URL has at most 5 hops and ends at a
  2xx response whose body arrives, the download succeeds and the body is what the
  destination file holds. When the first 6 responses are all redirects, the download
  fails with the error "Too many redirects (>5) for URL: ..." and the directory is as it
  was: no file is written.
\<close>

theorem redirects_followed_up_to_five:
  "(after_redirects P url n = Some final \<and> n \<le> 5 \<and> serves P final content \<longrightarrow>
      downloadFile P url destPath dir = (Resolved, writeFile dir destPath content))
   \<and> (after_redirects P url 6 \<noteq> None \<longrightarrow>
      downloadFile P url destPath dir = (Rejected (''Too many redirects (>5) for URL: '' @ url), dir))"
proof (intro conjI impI)
  assume a: "after_redirects P url n = Some final \<and> n \<le> 5 \<and> serves P final content"
  then have chain: "after_redirects P url n = Some final" and n: "int n \<le> MAX_REDIRECTS"
    and final: "serves P final content"
    by (simp_all add: MAX_REDIRECTS_def)
  from chain_followed [OF chain n final_response_saved [OF final]]
  show "downloadFile P url destPath dir = (Resolved, writeFile dir destPath content)"
    by (simp add: downloadFile_def)
next
  assume "after_redirects P url 6 \<noteq> None"
  then obtain x where "after_redirects P url (Suc 5) = Some x"
    by (auto simp: eval_nat_numeral)
  from after_redirects_last [OF this] obtain mid where
    mid: "after_redirects P url 5 = Some mid" and last: "redirect_of P mid = Some x"
    by blast
  have 5: "int 5 \<le> MAX_REDIRECTS" by (simp add: MAX_REDIRECTS_def)
  have "doRequest P url destPath dir mid (MAX_REDIRECTS - int 5)
      = (Inr (Rejected (''Too many redirects (>'' @ dec (nat MAX_REDIRECTS) @ '') for URL: '' @ url)), dir)"
    by (rule redirect_refused [OF last]) (simp add: MAX_REDIRECTS_def)
  from chain_followed [OF mid 5 this]
  show "downloadFile P url destPath dir = (Rejected (''Too many redirects (>5) for URL: '' @ url), dir)"
    by (simp add: downloadFile_def limit_text)
qed

theorem redirects_followed_up_to_five_witness:
  "downloadFile hops ''http://h/0'' ''a.jpg'' [] = (Resolved, [(''a.jpg'', ''body'')])
   \<and> downloadFile hops ''http://loop/'' ''b.jpg'' []
       = (Rejected ''Too many redirects (>5) for URL: http://loop/'', [])"
proof -
  have 1: "after_redirects hops ''http://h/0'' 3 = Some ''http://h/3'' \<and> (3::nat) \<le> 5
      \<and> serves hops ''http://h/3'' ''body''"
    by (simp add: eval_nat_numeral redirect_of_def refused_protocol_def hops_def serves_def)
  have 2: "after_redirects hops ''http://loop/'' 6 \<noteq> None"
    by (simp add: eval_nat_numeral redirect_of_def refused_protocol_def hops_def)
  from redirects_followed_up_to_five [of hops "''http://h/0''" 3 "''http://h/3''" "''body''" "''a.jpg''" "[]"]
    redirects_followed_up_to_five [of hops "''http://loop/''" 0 "''http://loop/''" "[]" "''b.jpg''" "[]"]
    1 2
  show ?thesis by (simp add: writeFile_def)
qed

text \<open>
  C5 fails on the code for the timeout. The handler of the file stream's \<open>error\<close> event
  unlinks the destination file (\<open>write_stream_error_cleans_up\<close>), but the handler of the
  30 second timer only destroys the request and rejects: when the transfer stalls after
  the file has been created, the truncated file stays in the directory.
\<close>

theorem timeout_keeps_truncated_file:
  "downloadFile stalling ''http://a.example/image.jpg'' ''image.jpg'' []
     = (Rejected ''Timeout downloading http://a.example/image.jpg'',
        [(''image.jpg'', ''JFIF-first-bytes'')])"
  by code_simp

text \<open>
  Where the loop reaches its end, \<open>downloadAssets\<close> calls \<open>fs.writeFileSync\<close> on the
  configuration file if and only if the walker collected at least one remote URL. The
  tree it writes is the original with every resolved URL replaced; a URL that was not
  resolved keeps its value in every slot, and when nothing was downloaded and nothing
  skipped the tree written is the original one.
\<close>

lemma written_when_the_run_returns:
  assumes "wf_json c0" and "downloadAssets P (Holds c0) dir = Inr out"
  shows "(written out \<noteq> None \<longleftrightarrow> collectRemoteUrls c0 \<noteq> [])
    \<and> (collectRemoteUrls c0 \<noteq> [] \<longrightarrow>
          written out = Some (rewrite (resolution (printed out)) c0))
    \<and> (collectRemoteUrls c0 \<noteq> [] \<and> stats_downloaded out = 0 \<and> stats_skipped out = 0 \<longrightarrow>
          written out = Some c0)
    \<and> (\<forall>e \<in> set (collectRemoteUrls c0). resolution (printed out) (fst e) = None \<longrightarrow>
          getAt (snd e) (rewrite (resolution (printed out)) c0) = Some (JStr (fst e)))"
proof (cases "collectRemoteUrls c0 = []")
  case True
  with assms(2) show ?thesis by (auto simp: downloadAssets_nothing)
next
  case False
  from downloadAssets_returned [OF False assms(2)] obtain s where
    mk: "mkdir_error P = None" and s: "loop_end P c0 dir = Inr s" .
  from downloadAssets_some [OF False mk s] assms(2) have
    w: "written out = Some (config s)"
    and d: "stats_downloaded out = downloaded s" "stats_skipped out = skipped s"
    and r: "resolution (printed out) = resolution (console s)"
    by auto
  have cfg: "config s = rewrite (resolution (printed out)) c0"
    by (simp add: loop_end_config [OF assms(1) s] r)
  have none: "config s = c0" if "downloaded s = 0" "skipped s = 0"
  proof -
    from loop_successes [OF s [unfolded loop_end_def]] that
    have "resolution (console s) = Map.empty"
      by (simp add: loop_start_def [where dir = dir, THEN arg_cong [where f = downloaded]]
          loop_start_def [where dir = dir, THEN arg_cong [where f = skipped]])
    then show ?thesis by (simp add: loop_end_config [OF assms(1) s] rewrite_empty)
  qed
  have kept: "getAt (snd e) (rewrite (resolution (printed out)) c0) = Some (JStr (fst e))"
    if "e \<in> set (collectRemoteUrls c0)" "resolution (printed out) (fst e) = None" for e
    using slot_after_rewrite(1) [OF assms(1), of "fst e" "snd e" "resolution (printed out)"] that
    by (simp add: resolved_value_def)
  from w cfg none d kept False show ?thesis by auto
qed

text \<open>
  C10 fails on the code. The claim is that with references in the tree the file is
  rewritten even when every download fails. A failure that rejects the promise of
  \<open>downloadFile\<close> is caught by the loop, and the file is written: so it is when the
  network is down. But a redirect to a URL that \<open>http.get\<close> refuses (here one with the
  protocol \<open>ftp:\<close>) makes \<open>transport.get\<close> throw inside the response callback, where
  nothing catches it: the process dies in the loop and \<open>fs.writeFileSync\<close> is never
  reached. The same happens when \<open>new URL(headers.location, url)\<close> throws, here on
  the header \<open>Location: http://\<close>. The sibling \<open>new URL(url)\<close> at the head of
  \<open>doRequest\<close> is inside a \<open>try\<close> that rejects the promise.
\<close>

theorem redirect_to_ftp_ends_the_run:
  "downloadAssets offline (Holds one_logo) []
     = Inr \<lparr>stats_downloaded = 0, stats_skipped = 0,
            stats_errors = [''Failed to download http://a.example/img/logo.png: getaddrinfo ENOTFOUND''],
            written = Some one_logo, assets = [],
            printed = [Found 1, Unique 1, Downloading ''http://a.example/img/logo.png'',
                       Error ''Failed to download http://a.example/img/logo.png: getaddrinfo ENOTFOUND'',
                       ConfigWritten, Done 0 0 1]\<rparr>
   \<and> collectRemoteUrls one_logo = [(''http://a.example/img/logo.png'', [Prop ''logo''])]
   \<and> downloadFile to_ftp ''http://a.example/img/logo.png'' ''logo.png'' []
       = (Uncaught ''Protocol \"ftp:\" not supported. Expected \"http:\"'', [])
   \<and> downloadAssets to_ftp (Holds one_logo) []
       = Inl (Dies ''Protocol \"ftp:\" not supported. Expected \"http:\"'')
   \<and> downloadAssets broken_location (Holds one_logo) [] = Inl (Dies ''Invalid URL'')"
  by code_simp

section \<open>Validation: proofs\<close>

lemma issue_of_field:
  "(k, S) \<in> set shape \<Longrightarrow> x \<in> set (fst (parse S (map_of kvs k))) \<Longrightarrow>
   below (Prop k) x \<in> set (fst (parse_shape shape kvs))"
  by (induction shape) (auto simp: shape_result_def)

lemma enumerate_nth: "i < length rs \<Longrightarrow> (n + i, rs ! i) \<in> set (enumerate n rs)"
  by (simp add: in_set_enumerate_eq)

lemma issue_of_element:
  assumes "i < length xs" and "x \<in> set (fst (parse S (Some (xs ! i))))"
  shows "below (Index i) x \<in> set (fst (parse (ZArray S minimum maximum) (Some (JArr xs))))"
proof -
  let ?rs = "map (\<lambda>x. parse S (Some x)) xs"
  let ?f = "\<lambda>(i, r). map (below (Index i)) (fst r)"
  from assms(1) have "(i, ?rs ! i) \<in> set (enumerate 0 ?rs)"
    using enumerate_nth [of i ?rs 0] by simp
  moreover from assms have "below (Index i) x \<in> set (?f (i, ?rs ! i))" by simp
  ultimately have "below (Index i) x \<in> set (concat (map ?f (enumerate 0 ?rs)))"
    unfolding set_concat set_map by blast
  then show ?thesis by (simp add: array_result_def)
qed

lemma fst_object_result [simp]: "fst (object_result r) = fst r"
  by (simp add: object_result_def)

lemma issue_of_property:
  assumes "(k, S) \<in> set shape" and "x \<in> set (fst (parse S (map_of kvs k)))"
  shows "below (Prop k) x \<in> set (fst (parse (ZObject shape) (Some (JObj kvs))))"
  using issue_of_field [OF assms] by simp

lemma issue_kept_by_refinement:
  "x \<in> set (fst r) \<Longrightarrow> x \<in> set (fst (refine_result ok reason place r))"
  by (auto simp: refine_result_def split: option.splits)

lemma parse_refine:
  "parse (ZRefine S ok reason place) v = refine_result ok reason place (parse S v)"
  by simp

lemma get_prop_Some: "get_prop k v = Some x \<Longrightarrow> \<exists>kvs. v = JObj kvs \<and> map_of kvs k = Some x"
  by (cases v) auto

lemma unknown_tag_issue:
  assumes "get_prop ''sections'' config0 = Some (JArr sections)"
    and "i < length sections"
    and "get_prop ''type'' (sections ! i) = Some (JStr tag)"
    and "tag \<notin> set VALID_SECTION_TYPES"
  shows "Issue [Prop ''sections'', Index i, Prop ''type''] invalid_enum_value (Default invalid_enum_value)
    \<in> set (fst (parse (SiteConfigSchema E) (Some config0)))"
proof -
  from assms(1) obtain kvs where c: "config0 = JObj kvs"
    and secs: "map_of kvs ''sections'' = Some (JArr sections)"
    using get_prop_Some by blast
  from assms(3) obtain fields where s: "sections ! i = JObj fields"
    and tag: "map_of fields ''type'' = Some (JStr tag)"
    using get_prop_Some by blast
  let ?e = "Issue [] invalid_enum_value (Default invalid_enum_value)"
  have "?e \<in> set (fst (parse (ZEnum VALID_SECTION_TYPES) (map_of fields ''type'')))"
    using assms(4) tag by (simp add: invalid_def)
  then have "below (Prop ''type'') ?e \<in> set (fst (parse SectionConfigSchema (Some (sections ! i))))"
    unfolding SectionConfigSchema_def s
    by (rule issue_of_property [rotated]) simp
  from issue_of_element [OF assms(2) this]
  have "below (Index i) (below (Prop ''type'') ?e)
      \<in> set (fst (parse (ZArray SectionConfigSchema (Some (1, ''At least one section is required'')) None)
            (map_of kvs ''sections'')))"
    unfolding secs .
  then have "below (Prop ''sections'') (below (Index i) (below (Prop ''type'') ?e))
      \<in> set (fst (parse (ZObject [
          (''name'', nonEmptyString),
          (''url'', optionalUrlString E),
          (''languages'', ZOptional (ZArray nonEmptyString None None)),
          (''defaultLanguage'', nonEmptyString),
          (''theme'', ThemeConfigSchema),
          (''seo'', ZOptional (SeoConfigSchema E)),
          (''navigation'', NavigationConfigSchema E),
          (''sections'', ZArray SectionConfigSchema (Some (1, ''At least one section is required'')) None),
          (''footer'', FooterConfigSchema E),
          (''disclaimer'', ZOptional DisclaimerConfigSchema),
          (''pipeline'', ZOptional PipelineConfigSchema)]) (Some (JObj kvs))))"
    by (rule issue_of_property [rotated]) simp
  then have "below (Prop ''sections'') (below (Index i) (below (Prop ''type'') ?e))
      \<in> set (fst (parse (SiteConfigSchema E) (Some config0)))"
    unfolding SiteConfigSchema_def c parse_refine by (rule issue_kept_by_refinement)
  then show ?thesis by (simp add: below_def)
qed


lemma path_of_unknown_tag:
  "path_text [Prop ''sections'', Index i, Prop ''type''] = ''sections.'' @ dec i @ ''.type''"
  by (simp add: path_text_def)

lemma after_failed_top_level:
  "fst r \<noteq> [] \<Longrightarrow>
   after_top_level E r = Inr \<lparr>valid = False, errors = map top_level_error (fst r), warnings = []\<rparr>"
  by (simp add: after_top_level_def top_level_error_def)

lemma unknown_tag_outside_registry:
  "tag \<notin> set VALID_SECTION_TYPES \<Longrightarrow> tag \<notin> fst ` set (sectionPropsSchemas E)"
  by (simp add: VALID_SECTION_TYPES_def sectionPropsSchemas_def)

text \<open>
  The tags of the enumeration are the keys of the registry, one schema each, and none is
  a name of \<open>Object.prototype\<close>.
\<close>

lemma registry_keys: "map fst (sectionPropsSchemas E) = VALID_SECTION_TYPES"
  by (simp add: VALID_SECTION_TYPES_def sectionPropsSchemas_def)

lemma known_tag_has_schema:
  assumes "tag \<in> set VALID_SECTION_TYPES"
  shows "\<exists>schema. map_of (sectionPropsSchemas E) tag = Some schema"
proof -
  from assms have "tag \<in> fst ` set (sectionPropsSchemas E)"
    by (simp add: registry_keys [symmetric, of E])
  then show ?thesis by (cases "map_of (sectionPropsSchemas E) tag") (auto simp: map_of_eq_None_iff)
qed

text \<open>
  \<open>validateSectionProps\<close> throws exactly for the tags that the registry inherits and
  does not own.
\<close>

lemma validateSectionProps_throws_iff:
  "(\<exists>exception. validateSectionProps E tag props i = Inl exception)
     \<longleftrightarrow> tag \<in> set Object_prototype"
proof (cases "tag \<in> set VALID_SECTION_TYPES")
  case True
  then have "tag \<notin> set Object_prototype"
    by (auto simp: VALID_SECTION_TYPES_def Object_prototype_def)
  moreover from known_tag_has_schema [OF True, of E] obtain schema where
    "map_of (sectionPropsSchemas E) tag = Some schema" by blast
  ultimately show ?thesis
    by (simp add: validateSectionProps_def Let_def)
next
  case False
  then have "map_of (sectionPropsSchemas E) tag = None"
    using unknown_tag_outside_registry [OF False, of E] by (simp add: map_of_eq_None_iff)
  with unknown_tag_outside_registry [OF False, of E] show ?thesis
    by (simp add: validateSectionProps_def has_property_def)
qed

lemma duplicate_ids_from:
  "duplicate_ids i seen sections =
     map (\<lambda>j. duplicate_warning (i + j) (map section_id sections ! j))
       (filter (\<lambda>j. map section_id sections ! j \<in> seen \<union> set (take j (map section_id sections)))
          [0..<length sections])"
proof (induction sections arbitrary: i seen)
  case Nil
  show ?case by simp
next
  case (Cons s rest)
  have upt: "[0..<length (s # rest)] = 0 # map Suc [0..<length rest]"
    by (simp add: upt_conv_Cons map_Suc_upt del: upt_Suc)
  show ?case
    unfolding upt duplicate_ids.simps Cons.IH
    by (simp add: filter_map o_def disj_ac)
qed

lemma repeats_snoc:
  "repeats (ids @ [x]) = repeats ids @ (if x \<in> set ids then [length ids] else [])"
proof -
  have "filter (\<lambda>i. (ids @ [x]) ! i \<in> set (take i (ids @ [x]))) [0..<length ids]
      = filter (\<lambda>i. ids ! i \<in> set (take i ids)) [0..<length ids]"
    by (rule filter_cong) (auto simp: nth_append)
  then show ?thesis by (simp add: repeats_def)
qed

lemma length_repeats: "length (repeats ids) = length ids - card (set ids)"
proof (induction ids rule: rev_induct)
  case Nil
  show ?case by (simp add: repeats_def)
next
  case (snoc x ids)
  have "card (set ids) \<le> length ids" by (rule card_length)
  with snoc show ?case
    by (auto simp: repeats_snoc card_insert_if)
qed

lemma duplicate_ids_repeats:
  "duplicate_ids 0 {} sections
     = map (\<lambda>i. duplicate_warning i (map section_id sections ! i)) (repeats (map section_id sections))"
  by (simp add: duplicate_ids_from repeats_def)

lemma after_good_top_level:
  assumes "fst r = []"
    and "section_errors E 0 (elements (get_prop ''sections'' (output_or_null (snd r)))) = Inr errs"
  shows "after_top_level E r
    = Inr \<lparr>valid = (errs = []),
       errors = errs,
       warnings = (if \<not> js_truthy (get_prop ''seo'' (output_or_null (snd r))) then [no_seo_warning] else [])
                  @ duplicate_ids 0 {} (elements (get_prop ''sections'' (output_or_null (snd r))))
                  @ lint E (output_or_null (snd r))\<rparr>"
  using assms by (simp add: after_top_level_def Let_def)

text \<open>
  \<open>validateSiteConfig\<close> never throws: a configuration that the root schema accepts has
  sections whose type tags are in the enumeration, and for those \<open>validateSectionProps\<close>
  finds a schema.
\<close>

lemma refine_accepts:
  assumes "fst (refine_result ok reason place r) = []"
  shows "fst r = [] \<and> snd (refine_result ok reason place r) = snd r"
proof (cases "aborted (fst r)")
  case True
  with assms have "fst r = []" by (simp add: refine_result_def)
  with True show ?thesis by (simp add: aborted_def)
next
  case False
  with assms show ?thesis
    by (cases "snd r") (auto simp: refine_result_def split: if_splits)
qed

lemma shape_output_key:
  "(k, y) \<in> set (snd (parse_shape shape kvs)) \<Longrightarrow> k \<in> fst ` set shape"
  by (induction shape) (auto simp: shape_result_def split: option.splits)

lemma shape_output_keys: "fst ` set (snd (parse_shape shape kvs)) \<subseteq> fst ` set shape"
  using shape_output_key by fastforce

lemma shape_accepts:
  "distinct (map fst shape) \<Longrightarrow> (k, S) \<in> set shape \<Longrightarrow> fst (parse_shape shape kvs) = [] \<Longrightarrow>
   fst (parse S (map_of kvs k)) = []
   \<and> map_of (snd (parse_shape shape kvs)) k = snd (parse S (map_of kvs k))"
proof (induction shape)
  case Nil
  then show ?case by simp
next
  case (Cons entry shape)
  obtain k0 S0 where entry: "entry = (k0, S0)" by (cases entry)
  from Cons.prems(3) have here: "fst (parse S0 (map_of kvs k0)) = []"
    and rest: "fst (parse_shape shape kvs) = []"
    by (simp_all add: entry shape_result_def)
  from Cons.prems(1) have d: "distinct (map fst shape)" and fresh: "k0 \<notin> fst ` set shape"
    by (simp_all add: entry)
  show ?case
  proof (cases "k = k0")
    case True
    with Cons.prems(2) fresh have S: "S = S0" by (auto simp: entry image_iff)
    from fresh shape_output_keys [of shape kvs] have "k0 \<notin> fst ` set (snd (parse_shape shape kvs))"
      by blast
    then have "map_of (snd (parse_shape shape kvs)) k0 = None"
      by (simp add: map_of_eq_None_iff)
    with True S here show ?thesis
      by (simp add: entry shape_result_def split: option.splits)
  next
    case False
    with Cons.prems(2) have "(k, S) \<in> set shape" by (simp add: entry)
    from Cons.IH [OF d this rest] False show ?thesis
      by (simp add: entry shape_result_def split: option.splits)
  qed
qed

lemma object_accepts:
  assumes "fst (parse (ZObject shape) v) = []"
  obtains kvs where "v = Some (JObj kvs)" "fst (parse_shape shape kvs) = []"
    "snd (parse (ZObject shape) v) = Some (JObj (snd (parse_shape shape kvs)))"
proof (cases v)
  case None
  with assms show ?thesis by (simp add: invalid_def)
next
  case (Some x)
  with assms show ?thesis
    by (cases x) (auto simp: invalid_def object_result_def intro: that)
qed

lemma array_accepts:
  assumes "fst (parse (ZArray S minimum maximum) v) = []"
  obtains xs where "v = Some (JArr xs)" "\<forall>x \<in> set xs. fst (parse S (Some x)) = []"
    "snd (parse (ZArray S minimum maximum) v)
       = Some (JArr (map (\<lambda>x. output_or_null (snd (parse S (Some x)))) xs))"
proof (cases v)
  case None
  with assms show ?thesis by (simp add: invalid_def)
next
  case (Some y)
  show ?thesis
  proof (cases y)
    case (JArr xs)
    let ?rs = "map (\<lambda>x. parse S (Some x)) xs"
    from assms Some JArr
    have "concat (map (\<lambda>(i, r). map (below (Index i)) (fst r)) (enumerate 0 ?rs)) = []"
      by (simp add: array_result_def)
    then have all: "\<forall>ir \<in> set (enumerate 0 ?rs). fst (snd ir) = []"
      by (auto simp: concat_eq_Nil_conv)
    have "fst (parse S (Some x)) = []" if "x \<in> set xs" for x
    proof -
      from that obtain i where i: "i < length xs" "xs ! i = x" by (auto simp: in_set_conv_nth)
      then have "(i, ?rs ! i) \<in> set (enumerate 0 ?rs)"
        using enumerate_nth [of i ?rs 0] by simp
      with all i show ?thesis by fastforce
    qed
    moreover have "snd (parse (ZArray S minimum maximum) v)
        = Some (JArr (map (\<lambda>x. output_or_null (snd (parse S (Some x)))) xs))"
      using Some JArr by (simp add: array_result_def o_def)
    ultimately show ?thesis using Some JArr that by blast
  qed (use assms Some in \<open>simp_all add: invalid_def\<close>)
qed

lemma enum_accepts:
  assumes "fst (parse (ZEnum allowed) v) = []"
  obtains s where "s \<in> set allowed" "snd (parse (ZEnum allowed) v) = Some (JStr s)"
proof (cases v)
  case None
  with assms show ?thesis by (simp add: invalid_def)
next
  case (Some y)
  with assms show ?thesis
    by (cases y) (auto simp: invalid_def split: if_splits intro: that)
qed

lemma accepted_section_type:
  assumes "fst (parse SectionConfigSchema (Some x)) = []"
  shows "str_of (output_or_null (get_prop ''type'' (output_or_null (snd (parse SectionConfigSchema (Some x))))))
    \<in> set VALID_SECTION_TYPES"
proof -
  let ?shape = "[(''type'', ZEnum VALID_SECTION_TYPES), (''id'', nonEmptyString),
    (''props'', ZRecord (ZString []) ZAny)]"
  from assms have a: "fst (parse (ZObject ?shape) (Some x)) = []"
    by (simp only: SectionConfigSchema_def)
  from object_accepts [OF a] obtain fields where
    ok: "fst (parse_shape ?shape fields) = []"
    and out: "snd (parse (ZObject ?shape) (Some x)) = Some (JObj (snd (parse_shape ?shape fields)))"
    by blast
  have "distinct (map fst ?shape)" "(''type'', ZEnum VALID_SECTION_TYPES) \<in> set ?shape" by simp_all
  from shape_accepts [OF this ok] have
    tag: "fst (parse (ZEnum VALID_SECTION_TYPES) (map_of fields ''type'')) = []"
    and read: "map_of (snd (parse_shape ?shape fields)) ''type''
      = snd (parse (ZEnum VALID_SECTION_TYPES) (map_of fields ''type''))"
    by simp_all
  from enum_accepts [OF tag] obtain s where
    "s \<in> set VALID_SECTION_TYPES"
    "snd (parse (ZEnum VALID_SECTION_TYPES) (map_of fields ''type'')) = Some (JStr s)"
    by blast
  with read out show ?thesis
    by (simp only: SectionConfigSchema_def get_prop.simps output_or_null.simps str_of.simps)
qed

lemma accepted_sections:
  assumes "fst (parse (SiteConfigSchema E) (Some config0)) = []"
  shows "\<forall>section \<in> set (elements (get_prop ''sections'' (validated E config0))).
    str_of (output_or_null (get_prop ''type'' section)) \<in> set VALID_SECTION_TYPES"
proof -
  let ?sections = "ZArray SectionConfigSchema (Some (1, ''At least one section is required'')) None"
  let ?shape = "[
          (''name'', nonEmptyString),
          (''url'', optionalUrlString E),
          (''languages'', ZOptional (ZArray nonEmptyString None None)),
          (''defaultLanguage'', nonEmptyString),
          (''theme'', ThemeConfigSchema),
          (''seo'', ZOptional (SeoConfigSchema E)),
          (''navigation'', NavigationConfigSchema E),
          (''sections'', ?sections),
          (''footer'', FooterConfigSchema E),
          (''disclaimer'', ZOptional DisclaimerConfigSchema),
          (''pipeline'', ZOptional PipelineConfigSchema)]"
  from assms have "fst (refine_result default_in_languages
      ''defaultLanguage must be included in the languages array'' [Prop ''defaultLanguage'']
      (parse (ZObject ?shape) (Some config0))) = []"
    by (simp only: SiteConfigSchema_def parse_refine)
  from refine_accepts [OF this] have a: "fst (parse (ZObject ?shape) (Some config0)) = []"
    and v: "validated E config0 = output_or_null (snd (parse (ZObject ?shape) (Some config0)))"
    by (simp_all only: validated_def SiteConfigSchema_def parse_refine)
  from object_accepts [OF a] obtain kvs where
    ok: "fst (parse_shape ?shape kvs) = []"
    and out: "snd (parse (ZObject ?shape) (Some config0)) = Some (JObj (snd (parse_shape ?shape kvs)))"
    by blast
  have "distinct (map fst ?shape)" "(''sections'', ?sections) \<in> set ?shape" by simp_all
  from shape_accepts [OF this ok] have
    secs: "fst (parse ?sections (map_of kvs ''sections'')) = []"
    and read: "map_of (snd (parse_shape ?shape kvs)) ''sections''
      = snd (parse ?sections (map_of kvs ''sections''))"
    by simp_all
  from array_accepts [OF secs] obtain xs where
    each: "\<forall>x \<in> set xs. fst (parse SectionConfigSchema (Some x)) = []"
    and arr: "snd (parse ?sections (map_of kvs ''sections''))
      = Some (JArr (map (\<lambda>x. output_or_null (snd (parse SectionConfigSchema (Some x)))) xs))"
    by blast
  have "elements (get_prop ''sections'' (validated E config0))
      = map (\<lambda>x. output_or_null (snd (parse SectionConfigSchema (Some x)))) xs"
    unfolding v out by (simp only: output_or_null.simps get_prop.simps read arr elements.simps)
  with each accepted_section_type show ?thesis by auto
qed

lemma validateSectionProps_returns:
  assumes "tag \<in> set VALID_SECTION_TYPES"
  shows "\<exists>errs. validateSectionProps E tag props i = Inr errs"
  using validateSectionProps_throws_iff [of E tag props i] assms
  by (cases "validateSectionProps E tag props i")
    (auto simp: VALID_SECTION_TYPES_def Object_prototype_def)

lemma section_errors_returns:
  "\<forall>section \<in> set sections. str_of (output_or_null (get_prop ''type'' section)) \<in> set VALID_SECTION_TYPES
   \<Longrightarrow> \<exists>errs. section_errors E i sections = Inr errs"
proof (induction sections arbitrary: i)
  case Nil
  show ?case by simp
next
  case (Cons first rest)
  from Cons.prems have "str_of (output_or_null (get_prop ''type'' first)) \<in> set VALID_SECTION_TYPES"
    by simp
  from validateSectionProps_returns [OF this] obtain here where
    "validateSectionProps E (str_of (output_or_null (get_prop ''type'' first)))
       (output_or_null (get_prop ''props'' first)) i = Inr here"
    by blast
  moreover from Cons.IH [of "Suc i"] Cons.prems obtain more where
    "section_errors E (Suc i) rest = Inr more" by auto
  ultimately show ?case by simp
qed

lemma validateSiteConfig_returns: "\<exists>result. validateSiteConfig E config0 = Inr result"
proof (cases "fst (parse (SiteConfigSchema E) (Some config0)) = []")
  case False
  then show ?thesis
    unfolding validateSiteConfig_def by (simp add: after_failed_top_level)
next
  case True
  from section_errors_returns [OF accepted_sections [OF True], of E 0] obtain errs where
    "section_errors E 0 (elements (get_prop ''sections'' (validated E config0))) = Inr errs"
    by blast
  from after_good_top_level [OF True this [unfolded validated_def]] show ?thesis
    by (simp add: validateSiteConfig_def)
qed

text \<open>\<open>valid_LocalizedText\<close> is what \<open>LocalizedTextSchema\<close> accepts.\<close>

lemma record_of_texts:
  "fst (record_result (map (\<lambda>(k, x). (k, parse (ZString [MinLength 1 a]) (Some (JStr k)),
        parse (ZString [Trim, MinLength 1 b]) (Some x))) (map (\<lambda>(k, v). (k, JStr v)) m))) = []
     \<longleftrightarrow> list_all (\<lambda>(k, v). k \<noteq> [] \<and> trim v \<noteq> []) m"
  by (induction m)
    (auto simp: record_result_def string_result_def with_issues_def less_Suc_eq_0_disj)

lemma record_of_texts_not_aborted:
  "\<not> aborted (fst (record_result (map (\<lambda>(k, x). (k, parse (ZString [MinLength 1 a]) (Some (JStr k)),
        parse (ZString [Trim, MinLength 1 b]) (Some x))) (map (\<lambda>(k, v). (k, JStr v)) m))))"
  by (induction m)
    (auto simp: record_result_def string_result_def with_issues_def aborted_def aborting_def below_def
      split: if_splits)

lemma record_of_texts_output:
  "snd (record_result (map (\<lambda>(k, x). (k, parse (ZString [MinLength 1 a]) (Some (JStr k)),
        parse (ZString [Trim, MinLength 1 b]) (Some x))) (map (\<lambda>(k, v). (k, JStr v)) m)))
     = Some (JObj (map (\<lambda>(k, v). (k, JStr (trim v))) m))"
  by (induction m) (auto simp: record_result_def string_result_def with_issues_def)


lemma text_option:
  "fst (string_result (run_checks [Trim, MinLength 1 a] s))
     = (if trim s = [] then [Issue [] too_small (Text a)] else [])"
  by (simp add: string_result_def with_issues_def)

lemma refine_of_wrong_type:
  "refine_result ok b place (invalid invalid_type) = ([Issue [] invalid_type (Default invalid_type)], None)"
  by (simp add: refine_result_def invalid_def aborted_def aborting_def)

lemma union_of_two:
  "fst (union_result [r1, r2]) = [] \<longleftrightarrow> fst r1 = [] \<or> fst r2 = []"
  if "\<not> aborted (fst r1) \<or> \<not> aborted (fst r2)"
  using that by (auto simp: union_result_def invalid_def)

lemma LocalizedTextSchema_accepts:
  "fst (parse LocalizedTextSchema (Some (json_of v))) = [] \<longleftrightarrow> valid_LocalizedText v"
proof (cases v)
  case (LText s)
  let ?r1 = "string_result (run_checks [Trim, MinLength 1 ''Text must not be empty''] s)"
  let ?r2 = "([Issue [] invalid_type (Default invalid_type)], None :: json option)"
  have p: "parse LocalizedTextSchema (Some (json_of v)) = union_result [?r1, ?r2]"
    by (simp add: LocalizedTextSchema_def LText refine_of_wrong_type)
  have "\<not> aborted (fst ?r1)"
    by (simp add: string_result_def with_issues_def aborted_def aborting_def)
  then have "fst (union_result [?r1, ?r2]) = [] \<longleftrightarrow> fst ?r1 = [] \<or> fst ?r2 = []"
    by (intro union_of_two) simp
  then show ?thesis
    unfolding p by (simp add: string_result_def with_issues_def LText)
next
  case (LMap m)
  define r where "r = record_result (map (\<lambda>(k, x). (k, parse (ZString [MinLength 1 ''Language key must not be empty'']) (Some (JStr k)),
        parse (ZString [Trim, MinLength 1 ''Localized text must not be empty'']) (Some x))) (map (\<lambda>(k, v). (k, JStr v)) m))"
  have ok: "fst r = [] \<longleftrightarrow> list_all (\<lambda>(k, v). k \<noteq> [] \<and> trim v \<noteq> []) m"
    unfolding r_def by (rule record_of_texts)
  have na: "\<not> aborted (fst r)"
    unfolding r_def by (rule record_of_texts_not_aborted)
  have out: "snd r = Some (JObj (map (\<lambda>(k, v). (k, JStr (trim v))) m))"
    unfolding r_def by (rule record_of_texts_output)
  let ?r1 = "invalid invalid_type"
  let ?r2 = "refine_result has_keys ''Must have at least one language'' [] r"
  have p: "parse LocalizedTextSchema (Some (json_of v)) = union_result [?r1, ?r2]"
    by (simp add: LocalizedTextSchema_def LMap r_def)
  have r2: "fst ?r2 = fst r @ (if m \<noteq> [] then [] else [Issue [] custom (Text ''Must have at least one language'')])"
    using na by (simp add: refine_result_def out)
  have "\<not> aborted (fst ?r2)"
    using na unfolding r2 by (simp add: aborted_def aborting_def)
  then have "fst (union_result [?r1, ?r2]) = [] \<longleftrightarrow> fst ?r1 = [] \<or> fst ?r2 = []"
    by (intro union_of_two) simp
  then show ?thesis
    unfolding p r2 by (simp add: ok invalid_def LMap)
qed

section \<open>Validation: the claims\<close>

text \<open>
  C6, as stated, fails. A section with an unknown type tag makes the root schema fail (its
  \<open>type\<close> field is an enumeration of the eleven tags), and \<open>validateSiteConfig\<close> returns
  at once with the issues of the root schema: the error is at \<open>sections.0.type\<close> with
  zod's text for an enumeration, not "Unknown section type", and the hero section that
  follows, whose props lack the required title, is not validated at all.
\<close>

theorem unknown_type_hides_other_sections:
  "validateSiteConfig plain with_unknown_type
     = Inr \<lparr>valid = False,
            errors = [\<lparr>path = ''sections.0.type'', message = Default invalid_enum_value\<rparr>],
            warnings = []\<rparr>
   \<and> validateSectionProps plain ''hero'' (JObj []) 1
       = Inr [\<lparr>path = ''sections[1].props.title'', message = Default invalid_union\<rparr>]"
  by code_simp

text \<open>
  C6, amended. For every configuration whose sections list has an entry whose type tag is
  not one of the eleven known tags, validation reports a hard error, never a silent skip:
  \<open>validateSiteConfig\<close> returns \<open>valid: false\<close> with the issues of the root schema as
  its errors and no warnings, among them the enumeration issue at
  \<open>sections.<i>.type\<close>, and it validates no section's props. The error "Unknown section
  type" at \<open>sections[i].type\<close> is what \<open>validateSectionProps\<close> returns, as its only
  error, when it is called with such a tag that is not the name of a property objects
  inherit from \<open>Object.prototype\<close>; for those names nothing is stated here
  (\<open>validateSectionProps_throws_iff\<close> says what the code does).
\<close>

theorem unknown_type_stops_at_root:
  assumes "get_prop ''sections'' config0 = Some (JArr sections)"
    and "i < length sections"
    and "get_prop ''type'' (sections ! i) = Some (JStr tag)"
    and "tag \<notin> set VALID_SECTION_TYPES"
  shows "validateSiteConfig E config0
      = Inr \<lparr>valid = False,
             errors = map top_level_error (fst (parse (SiteConfigSchema E) (Some config0))),
             warnings = []\<rparr>
    \<and> \<lparr>path = ''sections.'' @ dec i @ ''.type'', message = Default invalid_enum_value\<rparr>
        \<in> set (map top_level_error (fst (parse (SiteConfigSchema E) (Some config0))))
    \<and> (tag \<notin> set Object_prototype \<longrightarrow>
        validateSectionProps E tag props i
          = Inr [\<lparr>path = ''sections['' @ dec i @ ''].type'',
                 message = Text (''Unknown section type: \"'' @ tag @ ''\"'')\<rparr>])"
proof -
  let ?issue = "Issue [Prop ''sections'', Index i, Prop ''type''] invalid_enum_value
    (Default invalid_enum_value)"
  have found: "?issue \<in> set (fst (parse (SiteConfigSchema E) (Some config0)))"
    using assms by (rule unknown_tag_issue)
  then have "fst (parse (SiteConfigSchema E) (Some config0)) \<noteq> []" by auto
  then have result: "validateSiteConfig E config0
      = Inr \<lparr>valid = False,
             errors = map top_level_error (fst (parse (SiteConfigSchema E) (Some config0))),
             warnings = []\<rparr>"
    unfolding validateSiteConfig_def by (rule after_failed_top_level)
  have "top_level_error ?issue
      = \<lparr>path = ''sections.'' @ dec i @ ''.type'', message = Default invalid_enum_value\<rparr>"
    by (simp add: top_level_error_def path_of_unknown_tag)
  with found have "\<lparr>path = ''sections.'' @ dec i @ ''.type'', message = Default invalid_enum_value\<rparr>
      \<in> top_level_error ` set (fst (parse (SiteConfigSchema E) (Some config0)))"
    by (metis (no_types) imageI)
  then have listed: "\<lparr>path = ''sections.'' @ dec i @ ''.type'', message = Default invalid_enum_value\<rparr>
      \<in> set (map top_level_error (fst (parse (SiteConfigSchema E) (Some config0))))"
    by simp
  have "validateSectionProps E tag props i
      = Inr [\<lparr>path = ''sections['' @ dec i @ ''].type'',
             message = Text (''Unknown section type: \"'' @ tag @ ''\"'')\<rparr>]"
    if "tag \<notin> set Object_prototype"
    using unknown_tag_outside_registry [OF assms(4), of E] that
    by (simp add: validateSectionProps_def has_property_def)
  with listed result show ?thesis by blast
qed

theorem unknown_type_stops_at_root_witness:
  "get_prop ''sections'' with_unknown_type
     = Some (JArr [block ''carousel'' ''slides'' [], block ''hero'' ''top'' []])
   \<and> (0 :: nat) < length [block ''carousel'' ''slides'' [], block ''hero'' ''top'' []]
   \<and> get_prop ''type'' ([block ''carousel'' ''slides'' [], block ''hero'' ''top'' []] ! 0)
       = Some (JStr ''carousel'')
   \<and> ''carousel'' \<notin> set VALID_SECTION_TYPES
   \<and> ''carousel'' \<notin> set Object_prototype
   \<and> validateSiteConfig plain with_unknown_type
       = Inr \<lparr>valid = False,
              errors = map top_level_error (fst (parse (SiteConfigSchema plain) (Some with_unknown_type))),
              warnings = []\<rparr>
   \<and> \<lparr>path = ''sections.'' @ dec 0 @ ''.type'', message = Default invalid_enum_value\<rparr>
       \<in> set (map top_level_error (fst (parse (SiteConfigSchema plain) (Some with_unknown_type))))
   \<and> validateSectionProps plain ''carousel'' (JObj []) 0
       = Inr [\<lparr>path = ''sections['' @ dec 0 @ ''].type'',
              message = Text (''Unknown section type: \"'' @ ''carousel'' @ ''\"'')\<rparr>]"
proof -
  have 1: "get_prop ''sections'' with_unknown_type
      = Some (JArr [block ''carousel'' ''slides'' [], block ''hero'' ''top'' []])"
    by (simp add: with_unknown_type_def site_with_def)
  have 2: "(0 :: nat) < length [block ''carousel'' ''slides'' [], block ''hero'' ''top'' []]"
    by simp
  have 3: "get_prop ''type'' ([block ''carousel'' ''slides'' [], block ''hero'' ''top'' []] ! 0)
      = Some (JStr ''carousel'')"
    by (simp add: block_def)
  have 4: "''carousel'' \<notin> set VALID_SECTION_TYPES"
    by (simp add: VALID_SECTION_TYPES_def)
  have 5: "''carousel'' \<notin> set Object_prototype"
    by (simp add: Object_prototype_def)
  from 1 2 3 4 5 unknown_type_stops_at_root [OF 1 2 3 4, of plain "JObj []"] show ?thesis
    by blast
qed

text \<open>
  C7. For every configuration that the root schema accepts and whose sections all have
  valid props, also when section ids repeat, \<open>validateSiteConfig\<close> returns \<open>valid: true\<close>
  with no error, and its warnings are the missing-seo warning if it applies, then exactly
  one "Duplicate section id" warning for every index whose id has occurred at an earlier
  index, then the warnings of the diacritics heuristic. The number of duplicate warnings
  is the number of sections minus the number of distinct ids. The ids are those of the
  validated configuration.
\<close>

theorem duplicate_ids_only_warn:
  assumes "fst (parse (SiteConfigSchema E) (Some config0)) = []"
    and "section_errors E 0 (elements (get_prop ''sections'' (validated E config0))) = Inr []"
  shows "validateSiteConfig E config0
      = Inr \<lparr>valid = True,
             errors = [],
             warnings =
               (if \<not> js_truthy (get_prop ''seo'' (validated E config0)) then [no_seo_warning] else [])
               @ map (\<lambda>i. duplicate_warning i (section_ids (validated E config0) ! i))
                   (repeats (section_ids (validated E config0)))
               @ lint E (validated E config0)\<rparr>
    \<and> length (repeats (section_ids (validated E config0)))
        = length (section_ids (validated E config0)) - card (set (section_ids (validated E config0)))"
proof -
  have "validateSiteConfig E config0
    = Inr \<lparr>valid = ([] = ([] :: problem list)),
       errors = [],
       warnings = (if \<not> js_truthy (get_prop ''seo'' (validated E config0)) then [no_seo_warning] else [])
                  @ duplicate_ids 0 {} (elements (get_prop ''sections'' (validated E config0)))
                  @ lint E (validated E config0)\<rparr>"
    unfolding validateSiteConfig_def validated_def
    by (rule after_good_top_level [OF assms(1) assms(2) [unfolded validated_def]])
  then show ?thesis
    by (simp add: duplicate_ids_repeats section_ids_def length_repeats)
qed

theorem duplicate_ids_only_warn_witness:
  "fst (parse (SiteConfigSchema plain) (Some with_repeated_ids)) = []
   \<and> section_errors plain 0 (elements (get_prop ''sections'' (validated plain with_repeated_ids))) = Inr []
   \<and> section_ids (validated plain with_repeated_ids) = [''top'', ''top'', ''menu'', ''top'']
   \<and> validateSiteConfig plain with_repeated_ids
       = Inr \<lparr>valid = True, errors = [],
              warnings = [no_seo_warning, duplicate_warning 1 ''top'', duplicate_warning 3 ''top'']\<rparr>"
proof -
  have 1: "fst (parse (SiteConfigSchema plain) (Some with_repeated_ids)) = []"
    by code_simp
  have 2: "section_errors plain 0 (elements (get_prop ''sections'' (validated plain with_repeated_ids))) = Inr []"
    by code_simp
  have ids: "section_ids (validated plain with_repeated_ids) = [''top'', ''top'', ''menu'', ''top'']"
    by code_simp
  have seo: "\<not> js_truthy (get_prop ''seo'' (validated plain with_repeated_ids))"
    by code_simp
  have rep: "repeats [''top'', ''top'', ''menu'', ''top''] = [1, 3]"
    by code_simp
  have lint: "lint plain (validated plain with_repeated_ids) = []"
    by (simp add: plain_def)
  from duplicate_ids_only_warn [OF 1 2] 1 2 ids seo rep lint show ?thesis
    by simp
qed

text \<open>
  C8 fails on the code. The hero schema of the pipeline declares \<open>stats\<close> as an optional
  array with no bound on its length, so a hero section with a single stats entry passes
  \<open>validateSectionProps\<close> and the whole configuration is valid. The hero schema in
  \<open>src/schemas/sections.ts\<close>, which the pipeline module says it mirrors, rejects the
  same props with "Stats must have at least 2 items".
\<close>

theorem pipeline_accepts_hero_with_one_stat:
  "validateSectionProps plain ''hero'' hero_one_stat 0 = Inr []
   \<and> validateSiteConfig plain with_one_stat
       = Inr \<lparr>valid = True, errors = [], warnings = [no_seo_warning]\<rparr>
   \<and> fst (parse (HeroPropsSchema_ts plain) (Some hero_one_stat))
       = [Issue [Prop ''stats''] too_small (Text ''Stats must have at least 2 items'')]"
  by code_simp

section \<open>Resolution of localized text: proofs\<close>

lemma trim_Nil [simp]: "trim [] = []"
  by (simp add: trim_def)







lemma truthy_value_Str [simp]: "truthy_value (map_option Str x) = truthy x"
  by (cases x) auto







end
